theory Spec2Isabelle
  imports Main "HOL-Library.Word"
begin

section \<open>Outcomes of a call\<close>

text \<open>
  A Go call returns, panics, or (for the unbounded \<open>for\<close> loop of \<open>drawLine\<close>) may fail
  to return. The panics that the code of main.go can raise are the explicit
  \<open>panic(err)\<close> of \<open>generateImage\<close>, the panic of \<open>rand.Int\<close> on an argument that is
  not positive, and an index out of range.
\<close>

datatype panic = FontError string | RandIntArgument | IndexOutOfRange

datatype 'a outcome = Return 'a | Panics panic | Diverges

fun andThen :: "'a outcome \<Rightarrow> ('a \<Rightarrow> 'b outcome) \<Rightarrow> 'b outcome" where
  "andThen (Return x) f = f x"
| "andThen (Panics p) f = Panics p"
| "andThen Diverges f = Diverges"

section \<open>The randomness source\<close>

text \<open>
  \<open>crypto/rand\<close> is outside the program. It is modelled as an endless supply of raw
  natural numbers; \<open>rand.Int(rand.Reader, max)\<close> consumes one of them and returns a value
  in \<open>[0, max)\<close>, every value of that interval being possible (a raw number below
  \<open>max\<close> is returned as it is). It panics when \<open>max \<le> 0\<close>. The arguments
  \<open>min\<close> and \<open>max\<close> of the source are written \<open>mn\<close> and \<open>mx\<close>.
\<close>

type_synonym entropy = "nat \<Rightarrow> nat"

definition rand_Int :: "int \<Rightarrow> entropy \<Rightarrow> (int \<times> entropy) outcome" where
  "rand_Int mx e =
     (if mx \<le> 0 then Panics RandIntArgument
      else Return (int (e 0) mod mx, \<lambda>i. e (Suc i)))"

section \<open>Challenge generator (main.go, lines 123-162)\<close>

definition getRandomNumber :: "int \<Rightarrow> int \<Rightarrow> entropy \<Rightarrow> (int \<times> entropy) outcome" where
  "getRandomNumber mn mx e =
     andThen (rand_Int (mx - mn + 1) e) (\<lambda>(n, e'). Return (n + mn, e'))"

definition calculateAnswer :: "int \<Rightarrow> int \<Rightarrow> string \<Rightarrow> int" where
  "calculateAnswer a b op =
     (if op = ''+'' then a + b
      else if op = ''-'' then a - b
      else if op = ''*'' then a * b
      else 0)"

text \<open>The verb \<open>%d\<close> of \<open>fmt.Sprintf\<close>: decimal digits, with a minus sign when negative.\<close>

fun digits :: "nat \<Rightarrow> string" where
  "digits n =
     (if n < 10 then [''0123456789'' ! n]
      else digits (n div 10) @ [''0123456789'' ! (n mod 10)])"

declare digits.simps [simp del]

definition fmt_d :: "int \<Rightarrow> string" where
  "fmt_d n = (if n < 0 then CHR ''-'' # digits (nat (- n)) else digits (nat n))"

text \<open>\<open>fmt.Sprintf("%d %s %d = ?", a, op, b)\<close>.\<close>

definition Sprintf_equation :: "int \<Rightarrow> string \<Rightarrow> int \<Rightarrow> string" where
  "Sprintf_equation a op b = fmt_d a @ '' '' @ op @ '' '' @ fmt_d b @ '' = ?''"

definition ops :: "string list" where
  "ops = [''+'', ''-'', ''*'']"

text \<open>
  \<open>generateEquation\<close>. The \<open>switch\<close> has no default branch: for another operator
  \<open>a\<close> and \<open>b\<close> would keep their zero value.
\<close>

definition generateEquation :: "entropy \<Rightarrow> ((string \<times> int) \<times> entropy) outcome" where
  "generateEquation e =
     andThen (rand_Int (int (length ops)) e) (\<lambda>(opIndex, e1).
       if opIndex < 0 \<or> int (length ops) \<le> opIndex then Panics IndexOutOfRange
       else
         let op = ops ! nat opIndex in
         andThen
           (if op = ''+'' then
              andThen (getRandomNumber 1 10 e1) (\<lambda>(a, e2).
              andThen (getRandomNumber 1 10 e2) (\<lambda>(b, e3). Return (a, b, e3)))
            else if op = ''-'' then
              andThen (getRandomNumber 1 20 e1) (\<lambda>(a, e2).
              andThen (getRandomNumber 1 a e2) (\<lambda>(b, e3). Return (a, b, e3)))
            else if op = ''*'' then
              andThen (getRandomNumber 1 10 e1) (\<lambda>(a, e2).
              andThen (getRandomNumber 1 10 e2) (\<lambda>(b, e3). Return (a, b, e3)))
            else Return (0, 0, e1))
           (\<lambda>(a, b, e4).
              let equation = Sprintf_equation a op b;
                  answer = calculateAnswer a b op
              in Return ((equation, answer), e4)))"

section \<open>Image renderer (main.go, lines 164-246)\<close>

subsection \<open>Images of the standard library\<close>

text \<open>
  \<open>image.RGBA\<close>: a rectangle and one colour of four bytes (\<open>uint8\<close>) for each point.
  \<open>pix\<close> is only ever written inside the rectangle, so two images are equal exactly when
  their rectangles and their pixel bytes are.
\<close>

datatype rgba = RGBA "8 word" "8 word" "8 word" "8 word"

record rectangle =
  minX :: int
  minY :: int
  maxX :: int
  maxY :: int

record rgbaImage =
  rect :: rectangle
  pix :: "int \<times> int \<Rightarrow> rgba"

text \<open>\<open>image.Rect\<close> orders its corners.\<close>

definition Rect :: "int \<Rightarrow> int \<Rightarrow> int \<Rightarrow> int \<Rightarrow> rectangle" where
  "Rect x0 y0 x1 y1 =
     \<lparr>minX = (if x0 > x1 then x1 else x0), minY = (if y0 > y1 then y1 else y0),
      maxX = (if x0 > x1 then x0 else x1), maxY = (if y0 > y1 then y0 else y1)\<rparr>"

text \<open>\<open>Point.In\<close>.\<close>

definition In :: "int \<times> int \<Rightarrow> rectangle \<Rightarrow> bool" where
  "In p r = (minX r \<le> fst p \<and> fst p < maxX r \<and> minY r \<le> snd p \<and> snd p < maxY r)"

definition NewRGBA :: "rectangle \<Rightarrow> rgbaImage" where
  "NewRGBA r = \<lparr>rect = r, pix = (\<lambda>p. RGBA 0 0 0 0)\<rparr>"

text \<open>\<open>image.White\<close>, \<open>color.Black\<close> and \<open>color.RGBA{0, 0, 0, 255}\<close> as RGBA bytes.\<close>

definition White :: rgba where
  "White = RGBA 255 255 255 255"

definition Black :: rgba where
  "Black = RGBA 0 0 0 255"

text \<open>
  \<open>draw.Draw(img, img.Bounds(), image.White, image.Point{}, draw.Src)\<close>: every point of
  the bounds takes the colour of the uniform source.
\<close>

definition draw_Draw_Src :: "rgbaImage \<Rightarrow> rectangle \<Rightarrow> rgba \<Rightarrow> rgbaImage" where
  "draw_Draw_Src img r c =
     img\<lparr>pix := (\<lambda>p. if In p r \<and> In p (rect img) then c else pix img p)\<rparr>"

text \<open>\<open>(*image.RGBA).Set\<close>: a point outside the rectangle is ignored.\<close>

definition Set_RGBA :: "rgbaImage \<Rightarrow> int \<Rightarrow> int \<Rightarrow> rgba \<Rightarrow> rgbaImage" where
  "Set_RGBA img x y c =
     (if In (x, y) (rect img) then img\<lparr>pix := (pix img)((x, y) := c)\<rparr> else img)"

subsection \<open>Fonts and fixed-point numbers of golang.org/x/image\<close>

text \<open>
  \<open>fixed.Int26_6\<close> is a 32-bit integer; \<open>int32\<close> is the wrap-around of a conversion to
  32 bits. \<open>quo\<close> is Go's integer division, which truncates towards zero.
\<close>

definition int32 :: "int \<Rightarrow> int" where
  "int32 v = (v + 2 ^ 31) mod 2 ^ 32 - 2 ^ 31"

definition quo :: "int \<Rightarrow> int \<Rightarrow> int" where
  "quo a b = sgn a * sgn b * (\<bar>a\<bar> div \<bar>b\<bar>)"

text \<open>\<open>fixed.I(i) = Int26_6(i << 6)\<close>.\<close>

definition fixed_I :: "int \<Rightarrow> int" where
  "fixed_I i = int32 (i * 64)"

text \<open>\<open>(x Int26_6).Ceil() = int((x + 0x3f) >> 6)\<close>.\<close>

definition Ceil :: "int \<Rightarrow> int" where
  "Ceil x = int32 (x + 63) div 64"

text \<open>\<open>fixed.P(x, y) = Point26_6{Int26_6(x << 6), Int26_6(y << 6)}\<close>.\<close>

definition fixed_P :: "int \<Rightarrow> int \<Rightarrow> int \<times> int" where
  "fixed_P x y = (int32 (x * 64), int32 (y * 64))"

text \<open>
  The font library is outside the program. A face is modelled by what the program asks of
  it: \<open>MeasureString\<close>, the advance of a text as an \<open>Int26_6\<close>, and \<open>GlyphPixel\<close>, the
  colour that drawing a text with its dot at a given position gives to one pixel, from
  the source colour and the pixel's colour before (\<open>font.Drawer.DrawString\<close> composes
  pixel by pixel and is clipped to the destination's bounds).
\<close>

record face =
  MeasureString :: "string \<Rightarrow> int"
  GlyphPixel :: "string \<Rightarrow> int \<times> int \<Rightarrow> int \<times> int \<Rightarrow> rgba \<Rightarrow> rgba \<Rightarrow> rgba"

datatype hinting = HintingNone | HintingVertical | HintingFull

record faceOptions =
  Size :: nat
  DPI :: nat
  Hinting :: hinting

text \<open>
  A parsed font is modelled by what \<open>opentype.NewFace\<close> makes of it: a face, or an error.
\<close>

datatype sfntFont = Font "faceOptions \<Rightarrow> string + face"

fun opentype_NewFace :: "sfntFont \<Rightarrow> faceOptions \<Rightarrow> string + face" where
  "opentype_NewFace (Font mk) opts = mk opts"

definition font_MeasureString :: "face \<Rightarrow> string \<Rightarrow> int" where
  "font_MeasureString f s = int32 (MeasureString f s)"

definition DrawString :: "rgbaImage \<Rightarrow> rgba \<Rightarrow> face \<Rightarrow> int \<times> int \<Rightarrow> string \<Rightarrow> rgbaImage" where
  "DrawString dst src f dot s =
     dst\<lparr>pix := (\<lambda>p. if In p (rect dst) then GlyphPixel f s dot p src (pix dst p)
                     else pix dst p)\<rparr>"

subsection \<open>drawLine, abs, randInt, addDistortion\<close>

text \<open>
  The routines that draw take the image's \<open>Set\<close> method as the argument \<open>setf\<close>, so
  that the same definition runs on an \<open>image.RGBA\<close> (\<open>Set_RGBA\<close>) and on a log of the
  calls of \<open>Set\<close> (\<open>Set_log\<close>).

  Go's \<open>int\<close> has 64 bits: \<open>int64\<close> is the wrap-around of a result to 64 bits, and it
  is written at every addition, subtraction, negation and multiplication of \<open>drawLine\<close>
  and \<open>abs\<close>. \<open>inInt64\<close> says that a value is a Go \<open>int\<close>.
\<close>

definition int64 :: "int \<Rightarrow> int" where
  "int64 v = (v + 2 ^ 63) mod 2 ^ 64 - 2 ^ 63"

definition inInt64 :: "int \<Rightarrow> bool" where
  "inInt64 v = (- (2 ^ 63) \<le> v \<and> v < 2 ^ 63)"

definition abs_int :: "int \<Rightarrow> int" where
  "abs_int x = (if x < 0 then int64 (- x) else x)"

definition randInt :: "int \<Rightarrow> entropy \<Rightarrow> (int \<times> entropy) outcome" where
  "randInt mx e = andThen (rand_Int mx e) (\<lambda>(n, e'). Return (n, e'))"

text \<open>
  Lines 224-232, the body of the loop of \<open>drawLine\<close> after the test for the end: the new
  values of \<open>x0\<close>, \<open>y0\<close> and \<open>err\<close>.
\<close>

definition drawLine_next :: "int \<Rightarrow> int \<Rightarrow> int \<Rightarrow> int \<Rightarrow> int \<Rightarrow> int \<Rightarrow> int \<Rightarrow> int \<times> int \<times> int" where
  "drawLine_next dx dy sx sy x0 y0 err =
     (let e2 = int64 (2 * err);
          err1 = (if e2 > int64 (- dy) then int64 (err - dy) else err);
          x0' = (if e2 > int64 (- dy) then int64 (x0 + sx) else x0);
          err2 = (if e2 < dx then int64 (err1 + dx) else err1);
          y0' = (if e2 < dx then int64 (y0 + sy) else y0)
      in (x0', y0', err2))"

text \<open>
  The \<open>for\<close> loop of \<open>drawLine\<close>, with the values of its variables as arguments. It
  need not return: the result \<open>None\<close> is a loop that runs forever.
\<close>

partial_function (option) drawLine_loop ::
  "('i \<Rightarrow> int \<Rightarrow> int \<Rightarrow> rgba \<Rightarrow> 'i) \<Rightarrow> 'i \<Rightarrow> int \<Rightarrow> int \<Rightarrow> int \<Rightarrow> int \<Rightarrow> rgba
     \<Rightarrow> int \<Rightarrow> int \<Rightarrow> int \<Rightarrow> int \<Rightarrow> int \<Rightarrow> 'i option" where
  "drawLine_loop setf img x0 y0 x1 y1 color dx dy sx sy err =
     (let img1 = setf img x0 y0 color in
      if x0 = x1 \<and> y0 = y1 then Some img1
      else
        let s = drawLine_next dx dy sx sy x0 y0 err
        in drawLine_loop setf img1 (fst s) (fst (snd s)) x1 y1 color dx dy sx sy (snd (snd s)))"

declare drawLine_loop.simps [code]

text \<open>Lines 208-217, the values with which \<open>drawLine\<close> enters its loop.\<close>

definition drawLine_init :: "int \<Rightarrow> int \<Rightarrow> int \<Rightarrow> int \<Rightarrow> int \<times> int \<times> int \<times> int \<times> int" where
  "drawLine_init x0 y0 x1 y1 =
     (let dx = abs_int (int64 (x1 - x0));
          dy = abs_int (int64 (y1 - y0));
          sx = (if x0 > x1 then - 1 else 1);
          sy = (if y0 > y1 then - 1 else 1);
          err = int64 (dx - dy)
      in (dx, dy, sx, sy, err))"

definition drawLine ::
  "('i \<Rightarrow> int \<Rightarrow> int \<Rightarrow> rgba \<Rightarrow> 'i) \<Rightarrow> 'i \<Rightarrow> int \<Rightarrow> int \<Rightarrow> int \<Rightarrow> int \<Rightarrow> rgba \<Rightarrow> 'i outcome" where
  "drawLine setf img x0 y0 x1 y1 color =
     (case drawLine_init x0 y0 x1 y1 of
        (dx, dy, sx, sy, err) \<Rightarrow>
          (case drawLine_loop setf img x0 y0 x1 y1 color dx dy sx sy err of
             None \<Rightarrow> Diverges
           | Some img' \<Rightarrow> Return img'))"

text \<open>
  What \<open>drawLine\<close> has done after at most \<open>n\<close> passes of its loop, whether it returns
  or not: the same steps, counted.
\<close>

fun drawLine_passes ::
  "nat \<Rightarrow> ('i \<Rightarrow> int \<Rightarrow> int \<Rightarrow> rgba \<Rightarrow> 'i) \<Rightarrow> 'i \<Rightarrow> int \<Rightarrow> int \<Rightarrow> int \<Rightarrow> int \<Rightarrow> rgba
     \<Rightarrow> int \<Rightarrow> int \<Rightarrow> int \<Rightarrow> int \<Rightarrow> int \<Rightarrow> 'i" where
  "drawLine_passes 0 setf img x0 y0 x1 y1 color dx dy sx sy err = img"
| "drawLine_passes (Suc n) setf img x0 y0 x1 y1 color dx dy sx sy err =
     (let img1 = setf img x0 y0 color in
      if x0 = x1 \<and> y0 = y1 then img1
      else
        let s = drawLine_next dx dy sx sy x0 y0 err
        in drawLine_passes n setf img1 (fst s) (fst (snd s)) x1 y1 color dx dy sx sy (snd (snd s)))"

definition drawLine_upto ::
  "nat \<Rightarrow> ('i \<Rightarrow> int \<Rightarrow> int \<Rightarrow> rgba \<Rightarrow> 'i) \<Rightarrow> 'i \<Rightarrow> int \<Rightarrow> int \<Rightarrow> int \<Rightarrow> int \<Rightarrow> rgba \<Rightarrow> 'i" where
  "drawLine_upto n setf img x0 y0 x1 y1 color =
     (case drawLine_init x0 y0 x1 y1 of
        (dx, dy, sx, sy, err) \<Rightarrow> drawLine_passes n setf img x0 y0 x1 y1 color dx dy sx sy err)"

text \<open>
  \<open>addDistortion\<close>: the body of its loop (four draws and one line), and the loop
  \<open>for i := 0; i < 10; i++\<close> from the value \<open>i\<close>.
\<close>

definition addDistortion_body ::
  "('i \<Rightarrow> int \<Rightarrow> int \<Rightarrow> rgba \<Rightarrow> 'i) \<Rightarrow> 'i \<Rightarrow> int \<Rightarrow> int \<Rightarrow> entropy \<Rightarrow> ('i \<times> entropy) outcome" where
  "addDistortion_body setf img width height e =
     andThen (randInt width e) (\<lambda>(x1, e1).
     andThen (randInt height e1) (\<lambda>(y1, e2).
     andThen (randInt width e2) (\<lambda>(x2, e3).
     andThen (randInt height e3) (\<lambda>(y2, e4).
     andThen (drawLine setf img x1 y1 x2 y2 Black) (\<lambda>img'. Return (img', e4))))))"

function addDistortion_loop ::
  "('i \<Rightarrow> int \<Rightarrow> int \<Rightarrow> rgba \<Rightarrow> 'i) \<Rightarrow> nat \<Rightarrow> 'i \<Rightarrow> int \<Rightarrow> int \<Rightarrow> entropy \<Rightarrow> ('i \<times> entropy) outcome" where
  "addDistortion_loop setf i img width height e =
     (if i < 10 then
        (case addDistortion_body setf img width height e of
           Return (img', e') \<Rightarrow> addDistortion_loop setf (i + 1) img' width height e'
         | Panics p \<Rightarrow> Panics p
         | Diverges \<Rightarrow> Diverges)
      else Return (img, e))"
  by pat_completeness auto
termination
  by (relation "measure (\<lambda>(setf, i, img, width, height, e). 10 - i)") auto

declare addDistortion_loop.simps [simp del]

definition addDistortion ::
  "('i \<Rightarrow> int \<Rightarrow> int \<Rightarrow> rgba \<Rightarrow> 'i) \<Rightarrow> 'i \<Rightarrow> int \<Rightarrow> int \<Rightarrow> entropy \<Rightarrow> ('i \<times> entropy) outcome" where
  "addDistortion setf img width height e = addDistortion_loop setf 0 img width height e"

text \<open>The log of the calls of \<open>Set\<close>: the points, in the order of the calls.\<close>

definition Set_log :: "(int \<times> int) list \<Rightarrow> int \<Rightarrow> int \<Rightarrow> rgba \<Rightarrow> (int \<times> int) list" where
  "Set_log l x y c = l @ [(x, y)]"

text \<open>The image after a list of calls of \<open>Set\<close> with one colour, in order.\<close>

definition Set_all ::
  "('i \<Rightarrow> int \<Rightarrow> int \<Rightarrow> rgba \<Rightarrow> 'i) \<Rightarrow> rgba \<Rightarrow> 'i \<Rightarrow> (int \<times> int) list \<Rightarrow> 'i" where
  "Set_all setf c img ps = foldl (\<lambda>im p. setf im (fst p) (snd p) c) img ps"

text \<open>
  Geometry of a pixel \<open>p\<close> against the segment from \<open>(x0, y0)\<close> to \<open>(x1, y1)\<close>.
  \<open>inBox\<close>: inside the bounding box of the endpoints. \<open>nearLine\<close>: twice the cross
  product of \<open>p - (x0, y0)\<close> with the direction is at most the longer side of the box,
  that is, measured along the minor axis the pixel is at most half a pixel away from the
  ideal line (it is the pixel on the line or the one next to it).
\<close>

definition inBox :: "int \<Rightarrow> int \<Rightarrow> int \<Rightarrow> int \<Rightarrow> int \<times> int \<Rightarrow> bool" where
  "inBox x0 y0 x1 y1 p =
     (min x0 x1 \<le> fst p \<and> fst p \<le> max x0 x1 \<and> min y0 y1 \<le> snd p \<and> snd p \<le> max y0 y1)"

definition nearLine :: "int \<Rightarrow> int \<Rightarrow> int \<Rightarrow> int \<Rightarrow> int \<times> int \<Rightarrow> bool" where
  "nearLine x0 y0 x1 y1 p =
     (2 * \<bar>(fst p - x0) * (y1 - y0) - (snd p - y0) * (x1 - x0)\<bar>
        \<le> max \<bar>x1 - x0\<bar> \<bar>y1 - y0\<bar>)"

text \<open>
  A state of the loop of \<open>drawLine\<close>, told by the steps that remain on each axis:
  the pixel \<open>p\<close> is \<open>rx\<close> steps of \<open>sx\<close> and \<open>ry\<close> steps of \<open>sy\<close> before the end
  point, and the deviation \<open>rx * dy - ry * dx\<close> is within half of the longer side.
\<close>

definition onWalk ::
  "int \<Rightarrow> int \<Rightarrow> int \<Rightarrow> int \<Rightarrow> int \<Rightarrow> int \<Rightarrow> int \<Rightarrow> int \<Rightarrow> int \<times> int \<Rightarrow> bool" where
  "onWalk x1 y1 dx dy sx sy rx ry p =
     (p = (x1 - sx * rx, y1 - sy * ry) \<and> 0 \<le> rx \<and> rx \<le> dx \<and> 0 \<le> ry \<and> ry \<le> dy
      \<and> 2 * \<bar>rx * dy - ry * dx\<bar> \<le> max dx dy)"

text \<open>
  What the loop yields when it is entered \<open>rx\<close> and \<open>ry\<close> steps before the end point
  with the error term of that state: on the log it appends the points \<open>ps\<close>, and on any
  image it makes the calls of \<open>Set\<close> at the points \<open>ps\<close>, which begin with the point of
  that state and end with the end point.
\<close>

definition runs ::
  "('i \<Rightarrow> int \<Rightarrow> int \<Rightarrow> rgba \<Rightarrow> 'i) \<Rightarrow> int \<Rightarrow> int \<Rightarrow> rgba \<Rightarrow> int \<Rightarrow> int \<Rightarrow> int \<Rightarrow> int
     \<Rightarrow> int \<Rightarrow> int \<Rightarrow> (int \<times> int) list \<Rightarrow> bool" where
  "runs setf x1 y1 c dx dy sx sy rx ry ps =
     ((\<forall>l. drawLine_loop Set_log l (x1 - sx * rx) (y1 - sy * ry) x1 y1 c dx dy sx sy
              (dx - dy + (rx * dy - ry * dx)) = Some (l @ ps))
      \<and> (\<forall>img. drawLine_loop setf img (x1 - sx * rx) (y1 - sy * ry) x1 y1 c dx dy sx sy
              (dx - dy + (rx * dy - ry * dx)) = Some (Set_all setf c img ps))
      \<and> ps \<noteq> [] \<and> hd ps = (x1 - sx * rx, y1 - sy * ry) \<and> last ps = (x1, y1))"

text \<open>
  The sides of the bounding box are at most \<open>2 ^ 61\<close> and every coordinate between the
  end point and the sides is a Go \<open>int\<close>: then no operation of the loop wraps around.
\<close>

definition noWrap :: "int \<Rightarrow> int \<Rightarrow> int \<Rightarrow> int \<Rightarrow> int \<Rightarrow> int \<Rightarrow> bool" where
  "noWrap x1 y1 dx dy sx sy =
     (dx \<le> 2 ^ 61 \<and> dy \<le> 2 ^ 61
      \<and> (\<forall>r. 0 \<le> r \<and> r \<le> dx \<longrightarrow> inInt64 (x1 - sx * r))
      \<and> (\<forall>r. 0 \<le> r \<and> r \<le> dy \<longrightarrow> inInt64 (y1 - sy * r)))"

text \<open>
  The endpoints for which \<open>drawLine\<close> is free of wrap-around: the four coordinates are
  Go \<open>int\<close>s and the sides of the bounding box are at most \<open>2 ^ 61\<close>. Every pair of
  points of a canvas is of this kind.
\<close>

definition lineFits :: "int \<Rightarrow> int \<Rightarrow> int \<Rightarrow> int \<Rightarrow> bool" where
  "lineFits x0 y0 x1 y1 =
     (inInt64 x0 \<and> inInt64 y0 \<and> inInt64 x1 \<and> inInt64 y1
      \<and> \<bar>x1 - x0\<bar> \<le> 2 ^ 61 \<and> \<bar>y1 - y0\<bar> \<le> 2 ^ 61)"

text \<open>
  Drawing a list of segments one after the other, and the \<open>k\<close>-th segment that
  \<open>addDistortion\<close> draws from a randomness source: four consecutive draws, reduced to the
  width and the height.
\<close>

fun drawLines ::
  "('i \<Rightarrow> int \<Rightarrow> int \<Rightarrow> rgba \<Rightarrow> 'i) \<Rightarrow> 'i \<Rightarrow> ((int \<times> int) \<times> (int \<times> int)) list \<Rightarrow> 'i outcome" where
  "drawLines setf img [] = Return img"
| "drawLines setf img (s # segs) =
     andThen (drawLine setf img (fst (fst s)) (snd (fst s)) (fst (snd s)) (snd (snd s)) Black)
       (\<lambda>img'. drawLines setf img' segs)"

definition stroke :: "int \<Rightarrow> int \<Rightarrow> entropy \<Rightarrow> nat \<Rightarrow> (int \<times> int) \<times> (int \<times> int)" where
  "stroke width height e k =
     ((int (e (4 * k)) mod width, int (e (4 * k + 1)) mod height),
      (int (e (4 * k + 2)) mod width, int (e (4 * k + 3)) mod height))"



subsection \<open>generateImage\<close>

text \<open>
  \<open>ttf\<close> is the result of \<open>opentype.Parse(goregular.TTF)\<close>: a parsed font, or an error.
  The variables \<open>img\<close> of the source are numbered as they are updated.
\<close>

definition generateImage :: "string + sfntFont \<Rightarrow> string \<Rightarrow> entropy \<Rightarrow> (rgbaImage \<times> entropy) outcome" where
  "generateImage ttf text e =
     (let width = 200; height = 80;
          img = NewRGBA (Rect 0 0 width height);
          img1 = draw_Draw_Src img (rect img) White
      in case ttf of
           Inl err \<Rightarrow> Panics (FontError err)
         | Inr ttfFont \<Rightarrow>
             (case opentype_NewFace ttfFont \<lparr>Size = 32, DPI = 72, Hinting = HintingFull\<rparr> of
                Inl err \<Rightarrow> Panics (FontError err)
              | Inr face \<Rightarrow>
                  let textWidth = font_MeasureString face text;
                      startX = quo (int32 (fixed_I width - textWidth)) 2;
                      img2 = DrawString img1 Black face (fixed_P (Ceil startX) 50) text
                  in addDistortion Set_RGBA img2 width height e))"

text \<open>
  The stages of \<open>generateImage\<close> when the font loads, named for the statements below:
  the canvas after \<open>draw.Draw\<close>, the dot at which the text is drawn, and the image
  after \<open>d.DrawString(text)\<close>, before \<open>addDistortion\<close>.
\<close>

definition background :: rgbaImage where
  "background = draw_Draw_Src (NewRGBA (Rect 0 0 200 80)) (Rect 0 0 200 80) White"

definition textDot :: "face \<Rightarrow> string \<Rightarrow> int \<times> int" where
  "textDot f text =
     fixed_P (Ceil (quo (int32 (fixed_I 200 - font_MeasureString f text)) 2)) 50"

definition textLayer :: "face \<Rightarrow> string \<Rightarrow> rgbaImage" where
  "textLayer f text = DrawString background Black f (textDot f text) text"

text \<open>
  A small font for concrete runs: every character advances ten pixels, and drawing a text
  paints the pixel under the dot with the source colour.
\<close>

definition sampleFace :: face where
  "sampleFace =
     \<lparr>MeasureString = (\<lambda>s. 640 * int (length s)),
      GlyphPixel = (\<lambda>s dot p src old.
         if p = (fst dot div 64, snd dot div 64) then src else old)\<rparr>"

definition sampleFont :: sfntFont where
  "sampleFont = Font (\<lambda>opts. Inr sampleFace)"

section \<open>Challenge store and validation (main.go, lines 24-121)\<close>

text \<open>
  The struct \<open>captchaEntry\<close> of main.go. \<open>answer\<close> is a Go \<open>int\<close>; every answer the
  generator produces lies in \<open>[0, 100]\<close>, so it is modelled as \<open>int\<close>. \<open>created\<close> is the
  reading of \<open>time.Now()\<close>, taken as an input of the handler (nanoseconds).
\<close>

record captchaEntry =
  equation :: string
  answer :: int
  created :: nat

text \<open>
  \<open>captchaStore.data\<close>: a Go map from the identifier to the entry. Every handler accesses
  it inside one critical section of the mutex, so a handler is modelled as an atomic step on
  the map.
\<close>

type_synonym captchaStore = "string \<rightharpoonup> captchaEntry"

text \<open>
  What a handler sends back: \<open>c.HTML(status, template, gin.H{...})\<close>,
  \<open>c.JSON(status, gin.H{...})\<close>, \<open>c.AbortWithStatus(status)\<close>, and the body that
  \<open>png.Encode\<close> writes under the header \<open>Content-Type: image/png\<close>. The key/value pairs
  of \<open>gin.H\<close> are kept as an association list. PNG is lossless and \<open>png.Encode\<close> is a
  function of the image, so the body is represented by the image it encodes.
\<close>

datatype response =
    HTML nat string "(string \<times> string) list"
  | JSON nat "(string \<times> string) list"
  | AbortWithStatus nat
  | PNG rgbaImage

subsection \<open>strconv.Atoi\<close>

text \<open>
  \<open>strconv.Atoi\<close> of the Go standard library, for a 64-bit \<open>int\<close>: an optional sign, then
  one or more decimal digits and nothing else; a value outside the range of \<open>int\<close> is an
  error as well.
\<close>

datatype numError = ErrSyntax | ErrRange

definition isDigit :: "char \<Rightarrow> bool" where
  "isDigit ch = (ch \<in> set ''0123456789'')"

definition digitVal :: "char \<Rightarrow> nat" where
  "digitVal ch = of_char ch - 48"

fun parseDigits :: "nat \<Rightarrow> string \<Rightarrow> nat option" where
  "parseDigits n [] = Some n"
| "parseDigits n (ch # s) =
     (if isDigit ch then parseDigits (n * 10 + digitVal ch) s else None)"

definition Atoi :: "string \<Rightarrow> numError + int" where
  "Atoi s =
     (case s of
        [] \<Rightarrow> Inl ErrSyntax
      | ch # rest \<Rightarrow>
          let neg = (ch = CHR ''-'');
              ds = (if ch = CHR ''-'' \<or> ch = CHR ''+'' then rest else s)
          in if ds = [] then Inl ErrSyntax
             else (case parseDigits 0 ds of
                     None \<Rightarrow> Inl ErrSyntax
                   | Some n \<Rightarrow>
                       let v = (if neg then - int n else int n)
                       in if - (2 ^ 63) \<le> v \<and> v < 2 ^ 63 then Inr v else Inl ErrRange))"

subsection \<open>The handlers that read and consume\<close>

text \<open>
  Lines 77-79, the read under \<open>RLock\<close>: \<open>entry, exists := captchaStore.data[captchaID]\<close>.
\<close>

definition peek :: "captchaStore \<Rightarrow> string \<Rightarrow> captchaEntry option" where
  "peek st captchaID = st captchaID"

text \<open>
  Lines 95-100, the critical section of \<open>POST /validate\<close>: the lookup, and the
  \<open>delete\<close> when the entry exists. It returns what was found and the store afterwards.
\<close>

definition consume :: "captchaStore \<Rightarrow> string \<Rightarrow> captchaEntry option \<times> captchaStore" where
  "consume st captchaID =
     (case st captchaID of
        None \<Rightarrow> (None, st)
      | Some entry \<Rightarrow> (Some entry, st(captchaID := None)))"

text \<open>
  Lines 91-118, \<open>POST /validate\<close> with the form fields \<open>captchaID\<close> and \<open>answer\<close>.
\<close>

definition handleValidate :: "captchaStore \<Rightarrow> string \<Rightarrow> string \<Rightarrow> captchaStore \<times> response" where
  "handleValidate st captchaID userAnswer =
     (case consume st captchaID of
        (None, st') \<Rightarrow>
          (st', HTML 400 ''index.html'' [(''error'', ''CAPTCHA expired or invalid'')])
      | (Some entry, st') \<Rightarrow>
          (case Atoi userAnswer of
             Inl err \<Rightarrow>
               (st', HTML 400 ''index.html'' [(''error'', ''Incorrect answer, please try again'')])
           | Inr userAnswerInt \<Rightarrow>
               if userAnswerInt \<noteq> answer entry
               then (st', HTML 400 ''index.html'' [(''error'', ''Incorrect answer, please try again'')])
               else (st', HTML 200 ''success.html'' [])))"

subsection \<open>The handlers that create and render\<close>

text \<open>
  Lines 39-54, \<open>GET /\<close>. \<open>captchaID\<close> is the value of \<open>uuid.New().String()\<close> and
  \<open>now\<close> the value of \<open>time.Now()\<close>, both taken from outside. A handler that panics
  has not touched the store.
\<close>

definition handleIndex ::
  "captchaStore \<Rightarrow> string \<Rightarrow> nat \<Rightarrow> entropy \<Rightarrow> captchaStore \<times> response outcome" where
  "handleIndex st captchaID now e =
     (case generateEquation e of
        Return ((eqn, ans), e') \<Rightarrow>
          (st(captchaID \<mapsto> \<lparr>equation = eqn, answer = ans, created = now\<rparr>),
           Return (HTML 200 ''index.html'' [(''captchaID'', captchaID)]))
      | Panics p \<Rightarrow> (st, Panics p)
      | Diverges \<Rightarrow> (st, Diverges))"

text \<open>Lines 56-72, \<open>GET /captcha/new\<close>.\<close>

definition handleCaptchaNew ::
  "captchaStore \<Rightarrow> string \<Rightarrow> nat \<Rightarrow> entropy \<Rightarrow> captchaStore \<times> response outcome" where
  "handleCaptchaNew st captchaID now e =
     (case generateEquation e of
        Return ((eqn, ans), e') \<Rightarrow>
          (st(captchaID \<mapsto> \<lparr>equation = eqn, answer = ans, created = now\<rparr>),
           Return (JSON 200 [(''captchaID'', captchaID),
                             (''imageUrl'', ''/captcha/image/'' @ captchaID)]))
      | Panics p \<Rightarrow> (st, Panics p)
      | Diverges \<Rightarrow> (st, Diverges))"

text \<open>Lines 74-89, \<open>GET /captcha/image/:id\<close>.\<close>

definition handleCaptchaImage ::
  "captchaStore \<Rightarrow> string \<Rightarrow> string + sfntFont \<Rightarrow> entropy \<Rightarrow> captchaStore \<times> response outcome" where
  "handleCaptchaImage st captchaID ttf e =
     (case peek st captchaID of
        None \<Rightarrow> (st, Return (AbortWithStatus 404))
      | Some entry \<Rightarrow>
          (st, andThen (generateImage ttf (equation entry) e) (\<lambda>(img, e'). Return (PNG img))))"

subsection \<open>The server as a state machine\<close>

text \<open>
  One request with everything it takes from outside, and the step of the store that
  serving it makes. The requests are served one after the other: the mutex makes the
  critical section of each handler atomic.
\<close>

datatype request =
    GetIndex string nat entropy
  | GetCaptchaNew string nat entropy
  | GetCaptchaImage string "string + sfntFont" entropy
  | PostValidate string string

fun serve :: "captchaStore \<Rightarrow> request \<Rightarrow> captchaStore \<times> response outcome" where
  "serve st (GetIndex captchaID now e) = handleIndex st captchaID now e"
| "serve st (GetCaptchaNew captchaID now e) = handleCaptchaNew st captchaID now e"
| "serve st (GetCaptchaImage captchaID ttf e) = handleCaptchaImage st captchaID ttf e"
| "serve st (PostValidate captchaID userAnswer) =
     (case handleValidate st captchaID userAnswer of (st', r) \<Rightarrow> (st', Return r))"

fun serveAll :: "captchaStore \<Rightarrow> request list \<Rightarrow> captchaStore" where
  "serveAll st [] = st"
| "serveAll st (r # rs) = serveAll (fst (serve st r)) rs"

text \<open>The identifier that a request mints, if it mints one.\<close>

fun minted :: "request \<Rightarrow> string option" where
  "minted (GetIndex captchaID now e) = Some captchaID"
| "minted (GetCaptchaNew captchaID now e) = Some captchaID"
| "minted (GetCaptchaImage captchaID ttf e) = None"
| "minted (PostValidate captchaID userAnswer) = None"

section \<open>Properties of the store and of validation\<close>

lemma consume_fst: "fst (consume st tok) = st tok"
  by (simp add: consume_def split: option.splits)

lemma consume_snd: "snd (consume st tok) = st(tok := None)"
  by (auto simp: consume_def split: option.splits)

lemma handleValidate_store: "fst (handleValidate st tok ans) = st(tok := None)"
  by (auto simp: handleValidate_def consume_def split: option.splits sum.splits)

lemma handleValidate_absent:
  "st tok = None \<Longrightarrow>
   snd (handleValidate st tok ans) = HTML 400 ''index.html'' [(''error'', ''CAPTCHA expired or invalid'')]"
  by (simp add: handleValidate_def consume_def)

lemma serve_absent:
  "st tok = None \<Longrightarrow> minted r \<noteq> Some tok \<Longrightarrow> fst (serve st r) tok = None"
  by (cases r)
     (auto simp: handleIndex_def handleCaptchaNew_def handleCaptchaImage_def
        handleValidate_store case_prod_unfold split: outcome.splits option.splits)

lemma serveAll_absent:
  "st tok = None \<Longrightarrow> \<forall>r\<in>set rs. minted r \<noteq> Some tok \<Longrightarrow> serveAll st rs tok = None"
  by (induction rs arbitrary: st) (auto simp: serve_absent)

text \<open>
  C1. Every \<open>POST /validate\<close> with an identifier leaves the store without that
  identifier, whatever the answer text is (correct, malformed or incorrect). The
  consumption of a stored identifier returns its entry; after it, and after any further
  requests that do not mint the same identifier again, a consumption of the identifier
  finds nothing and a validation answers "CAPTCHA expired or invalid".
\<close>

theorem consume_single_use:
  assumes "\<forall>r\<in>set rs. minted r \<noteq> Some tok"
  shows "fst (handleValidate st tok ans) = st(tok := None)
    \<and> (st tok = Some entry \<longrightarrow> consume st tok = (Some entry, st(tok := None)))
    \<and> fst (consume (serveAll (fst (handleValidate st tok ans)) rs) tok) = None
    \<and> snd (handleValidate (serveAll (fst (handleValidate st tok ans)) rs) tok ans')
        = HTML 400 ''index.html'' [(''error'', ''CAPTCHA expired or invalid'')]"
proof -
  have gone: "serveAll (fst (handleValidate st tok ans)) rs tok = None"
    using assms by (intro serveAll_absent) (simp_all add: handleValidate_store)
  show ?thesis
    using gone by (simp add: handleValidate_store handleValidate_absent consume_fst consume_def)
qed

theorem consume_single_use_witness:
  "[''t'' \<mapsto> \<lparr>equation = ''3 + 4 = ?'', answer = 7, created = 0\<rparr>] ''t''
       = Some \<lparr>equation = ''3 + 4 = ?'', answer = 7, created = 0\<rparr>
   \<and> consume [''t'' \<mapsto> \<lparr>equation = ''3 + 4 = ?'', answer = 7, created = 0\<rparr>] ''t''
     = (Some \<lparr>equation = ''3 + 4 = ?'', answer = 7, created = 0\<rparr>,
        [''t'' \<mapsto> \<lparr>equation = ''3 + 4 = ?'', answer = 7, created = 0\<rparr>](''t'' := None))
   \<and> snd (handleValidate
        (serveAll (fst (handleValidate
            [''t'' \<mapsto> \<lparr>equation = ''3 + 4 = ?'', answer = 7, created = 0\<rparr>] ''t'' ''8''))
          [GetCaptchaNew ''u'' 1 (\<lambda>i. i), PostValidate ''u'' ''0'',
           GetCaptchaImage ''t'' (Inl ''x'') (\<lambda>i. i)])
        ''t'' ''7'')
     = HTML 400 ''index.html'' [(''error'', ''CAPTCHA expired or invalid'')]"
proof -
  have h: "\<forall>r\<in>set [GetCaptchaNew ''u'' 1 (\<lambda>i. i), PostValidate ''u'' ''0'',
                 GetCaptchaImage ''t'' (Inl ''x'') (\<lambda>i. i)]. minted r \<noteq> Some ''t''"
    by simp
  have p: "[''t'' \<mapsto> \<lparr>equation = ''3 + 4 = ?'', answer = 7, created = 0\<rparr>] ''t''
       = Some \<lparr>equation = ''3 + 4 = ?'', answer = 7, created = 0\<rparr>"
    by simp
  from p consume_single_use [OF h,
      of "[''t'' \<mapsto> \<lparr>equation = ''3 + 4 = ?'', answer = 7, created = 0\<rparr>]" "''8''"
      "\<lparr>equation = ''3 + 4 = ?'', answer = 7, created = 0\<rparr>" "''7''"]
  show ?thesis by blast
qed

text \<open>
  C2, as the code has it. The validation answers "CAPTCHA expired or invalid" exactly when
  the identifier is not stored; it answers with the single failure "Incorrect answer,
  please try again" exactly when the identifier is stored and the answer text does not
  parse to the stored answer (whether it fails to parse or parses to another integer);
  it answers with the success page exactly when the identifier is stored and the text
  parses to the stored answer.
\<close>

theorem validate_classification:
  "(snd (handleValidate st tok ans) = HTML 400 ''index.html'' [(''error'', ''CAPTCHA expired or invalid'')]
      \<longleftrightarrow> st tok = None)
   \<and> (snd (handleValidate st tok ans) = HTML 400 ''index.html'' [(''error'', ''Incorrect answer, please try again'')]
      \<longleftrightarrow> (\<exists>entry. st tok = Some entry \<and> Atoi ans \<noteq> Inr (answer entry)))
   \<and> (snd (handleValidate st tok ans) = HTML 200 ''success.html'' []
      \<longleftrightarrow> (\<exists>entry. st tok = Some entry \<and> Atoi ans = Inr (answer entry)))"
  by (auto simp: handleValidate_def consume_def split: option.splits sum.splits)

theorem validate_classification_witness:
  "snd (handleValidate [''t'' \<mapsto> \<lparr>equation = ''3 + 4 = ?'', answer = 7, created = 0\<rparr>] ''t'' ''7'')
     = HTML 200 ''success.html'' []
   \<and> snd (handleValidate [''t'' \<mapsto> \<lparr>equation = ''3 + 4 = ?'', answer = 7, created = 0\<rparr>] ''t'' ''seven'')
     = HTML 400 ''index.html'' [(''error'', ''Incorrect answer, please try again'')]"
proof -
  have a: "Atoi ''7'' = Inr 7" "Atoi ''seven'' \<noteq> Inr 7"
    by (simp_all add: Atoi_def isDigit_def digitVal_def)
  show ?thesis
    using a validate_classification [of "[''t'' \<mapsto> \<lparr>equation = ''3 + 4 = ?'', answer = 7, created = 0\<rparr>]" "''t''" "''7''"]
      validate_classification [of "[''t'' \<mapsto> \<lparr>equation = ''3 + 4 = ?'', answer = 7, created = 0\<rparr>]" "''t''" "''seven''"]
    by simp
qed

text \<open>
  A text that does not parse (\<open>seven\<close>) and a text that parses to a wrong integer
  (\<open>8\<close>) get the same status, the same template and the same message: the handler has
  no separate outcome for a malformed answer.
\<close>

theorem malformed_not_distinguished:
  "Atoi ''seven'' = Inl ErrSyntax \<and> Atoi ''8'' = Inr 8
   \<and> handleValidate [''t'' \<mapsto> \<lparr>equation = ''3 + 4 = ?'', answer = 7, created = 0\<rparr>] ''t'' ''seven''
     = handleValidate [''t'' \<mapsto> \<lparr>equation = ''3 + 4 = ?'', answer = 7, created = 0\<rparr>] ''t'' ''8''"
  by (simp add: handleValidate_def consume_def Atoi_def isDigit_def digitVal_def)

text \<open>
  C9. \<open>GET /captcha/image/:id\<close> leaves the store as it was. For an identifier that is
  not stored it answers 404. For an identifier that a creating handler has just stored,
  the entry read back carries the equation text that was generated, and the image served
  is the rendering of that text.
\<close>

theorem peek_nondestructive:
  "fst (handleCaptchaImage st tok ttf e) = st
   \<and> (peek st tok = None \<longrightarrow> snd (handleCaptchaImage st tok ttf e) = Return (AbortWithStatus 404))
   \<and> (generateEquation e0 = Return ((eqn, ans), e1) \<longrightarrow>
        peek (fst (handleCaptchaNew st tok now e0)) tok
          = Some \<lparr>equation = eqn, answer = ans, created = now\<rparr>
      \<and> peek (fst (handleIndex st tok now e0)) tok
          = Some \<lparr>equation = eqn, answer = ans, created = now\<rparr>
      \<and> snd (handleCaptchaImage (fst (handleCaptchaNew st tok now e0)) tok ttf e)
          = andThen (generateImage ttf eqn e) (\<lambda>(img, e'). Return (PNG img)))"
  by (auto simp: handleCaptchaImage_def handleCaptchaNew_def handleIndex_def peek_def split: option.splits)

theorem peek_nondestructive_witness:
  "generateEquation (\<lambda>i. i + 1) = Return ((''3 - 1 = ?'', 2), (\<lambda>i. Suc (Suc (Suc (Suc i)))))
   \<and> peek (fst (handleCaptchaNew Map.empty ''t'' 5 (\<lambda>i. i + 1))) ''t''
       = Some \<lparr>equation = ''3 - 1 = ?'', answer = 2, created = 5\<rparr>
   \<and> snd (handleCaptchaImage (fst (handleCaptchaNew Map.empty ''t'' 5 (\<lambda>i. i + 1))) ''t'' (Inl ''no font'') (\<lambda>i. 0))
       = andThen (generateImage (Inl ''no font'') ''3 - 1 = ?'' (\<lambda>i. 0)) (\<lambda>(img, e'). Return (PNG img))
   \<and> fst (handleCaptchaImage (fst (handleCaptchaNew Map.empty ''t'' 5 (\<lambda>i. i + 1))) ''t'' (Inl ''no font'') (\<lambda>i. 0))
       = fst (handleCaptchaNew Map.empty ''t'' 5 (\<lambda>i. i + 1))"
proof -
  have g: "generateEquation (\<lambda>i. i + 1) = Return ((''3 - 1 = ?'', 2), (\<lambda>i. Suc (Suc (Suc (Suc i)))))"
    by (simp add: generateEquation_def rand_Int_def getRandomNumber_def ops_def
        Sprintf_equation_def fmt_d_def digits.simps calculateAnswer_def)
  from g
    peek_nondestructive [where st = Map.empty and tok = "''t''" and ttf = "Inl ''no font''"
        and e = "\<lambda>i. 0" and ?e0.0 = "\<lambda>i. i + 1" and eqn = "''3 - 1 = ?''" and ans = 2
        and ?e1.0 = "\<lambda>i. Suc (Suc (Suc (Suc i)))" and now = 5]
    peek_nondestructive [where st = "fst (handleCaptchaNew Map.empty ''t'' 5 (\<lambda>i. i + 1))"
        and tok = "''t''" and ttf = "Inl ''no font''" and e = "\<lambda>i. 0"]
  show ?thesis by blast
qed

section \<open>Properties of the generator\<close>

lemma rand_Int_range:
  "0 < mx \<Longrightarrow> \<exists>n. rand_Int mx e = Return (n, \<lambda>i. e (Suc i)) \<and> 0 \<le> n \<and> n < mx"
  by (simp add: rand_Int_def)

lemma getRandomNumber_range:
  assumes "mn \<le> mx"
  shows "\<exists>n. getRandomNumber mn mx e = Return (n, \<lambda>i. e (Suc i)) \<and> mn \<le> n \<and> n \<le> mx"
proof -
  from assms have "0 < mx - mn + 1" by simp
  from rand_Int_range [OF this, of e] obtain k
    where "rand_Int (mx - mn + 1) e = Return (k, \<lambda>i. e (Suc i))" "0 \<le> k" "k < mx - mn + 1"
    by blast
  then show ?thesis by (simp add: getRandomNumber_def)
qed

lemma two_draws:
  assumes "1 \<le> hi"
  shows "\<exists>a b e3. andThen (getRandomNumber 1 hi e1) (\<lambda>(a, e2).
              andThen (getRandomNumber 1 hi e2) (\<lambda>(b, e3). Return (a, b, e3))) = Return (a, b, e3)
            \<and> 1 \<le> a \<and> a \<le> hi \<and> 1 \<le> b \<and> b \<le> hi"
proof -
  from getRandomNumber_range [OF assms, of e1] obtain a
    where a: "getRandomNumber 1 hi e1 = Return (a, \<lambda>i. e1 (Suc i))" "1 \<le> a" "a \<le> hi" by blast
  from getRandomNumber_range [OF assms, of "\<lambda>i. e1 (Suc i)"] obtain b
    where b: "getRandomNumber 1 hi (\<lambda>i. e1 (Suc i)) = Return (b, \<lambda>i. e1 (Suc (Suc i)))" "1 \<le> b" "b \<le> hi"
    by blast
  from a b show ?thesis by simp
qed

lemma subtract_draws:
  "\<exists>a b e3. andThen (getRandomNumber 1 20 e1) (\<lambda>(a, e2).
              andThen (getRandomNumber 1 a e2) (\<lambda>(b, e3). Return (a, b, e3))) = Return (a, b, e3)
            \<and> 1 \<le> a \<and> a \<le> 20 \<and> 1 \<le> b \<and> b \<le> a"
proof -
  have "(1::int) \<le> 20" by simp
  from getRandomNumber_range [OF this, of e1] obtain a
    where a: "getRandomNumber 1 20 e1 = Return (a, \<lambda>i. e1 (Suc i))" "1 \<le> a" "a \<le> 20" by blast
  from getRandomNumber_range [OF a(2), of "\<lambda>i. e1 (Suc i)"] obtain b
    where b: "getRandomNumber 1 a (\<lambda>i. e1 (Suc i)) = Return (b, \<lambda>i. e1 (Suc (Suc i)))" "1 \<le> b" "b \<le> a"
    by blast
  from a b show ?thesis by simp
qed

lemma generateEquation_cases:
  "\<exists>a b op e'. generateEquation e
       = Return ((Sprintf_equation a op b, calculateAnswer a b op), e')
     \<and> (op = ''+'' \<and> 1 \<le> a \<and> a \<le> 10 \<and> 1 \<le> b \<and> b \<le> 10
        \<or> op = ''-'' \<and> 1 \<le> a \<and> a \<le> 20 \<and> 1 \<le> b \<and> b \<le> a
        \<or> op = ''*'' \<and> 1 \<le> a \<and> a \<le> 10 \<and> 1 \<le> b \<and> b \<le> 10)"
proof -
  let ?k = "int (e 0) mod 3"
  let ?e1 = "\<lambda>i. e (Suc i)"
  have r: "rand_Int (int (length ops)) e = Return (?k, ?e1)"
    by (simp add: rand_Int_def ops_def)
  have "?k = 0 \<or> ?k = 1 \<or> ?k = 2" by presburger
  then consider (add) "?k = 0" | (sub) "?k = 1" | (mul) "?k = 2" by blast
  then show ?thesis
  proof cases
    case add
    have ten: "(1::int) \<le> 10" by simp
    from two_draws [OF ten, of ?e1] obtain a b e3 where
      d: "andThen (getRandomNumber 1 10 ?e1) (\<lambda>(a, e2).
              andThen (getRandomNumber 1 10 e2) (\<lambda>(b, e3). Return (a, b, e3))) = Return (a, b, e3)"
      and rg: "1 \<le> a" "a \<le> 10" "1 \<le> b" "b \<le> 10" by blast
    have "generateEquation e = Return ((Sprintf_equation a ''+'' b, calculateAnswer a b ''+''), e3)"
      unfolding generateEquation_def r using add d by (simp add: ops_def Let_def)
    with rg show ?thesis by blast
  next
    case sub
    from subtract_draws [of ?e1] obtain a b e3 where
      d: "andThen (getRandomNumber 1 20 ?e1) (\<lambda>(a, e2).
              andThen (getRandomNumber 1 a e2) (\<lambda>(b, e3). Return (a, b, e3))) = Return (a, b, e3)"
      and rg: "1 \<le> a" "a \<le> 20" "1 \<le> b" "b \<le> a" by blast
    have "generateEquation e = Return ((Sprintf_equation a ''-'' b, calculateAnswer a b ''-''), e3)"
      unfolding generateEquation_def r using sub d by (simp add: ops_def Let_def)
    with rg show ?thesis by blast
  next
    case mul
    have ten: "(1::int) \<le> 10" by simp
    from two_draws [OF ten, of ?e1] obtain a b e3 where
      d: "andThen (getRandomNumber 1 10 ?e1) (\<lambda>(a, e2).
              andThen (getRandomNumber 1 10 e2) (\<lambda>(b, e3). Return (a, b, e3))) = Return (a, b, e3)"
      and rg: "1 \<le> a" "a \<le> 10" "1 \<le> b" "b \<le> 10" by blast
    have "generateEquation e = Return ((Sprintf_equation a ''*'' b, calculateAnswer a b ''*''), e3)"
      unfolding generateEquation_def r using mul d by (simp add: ops_def Let_def)
    with rg show ?thesis by blast
  qed
qed

text \<open>
  C3. Whatever the randomness source yields, \<open>generateEquation\<close> returns; the operator
  is one of \<open>+\<close>, \<open>-\<close> and \<open>*\<close>; the equation text is the first operand, the
  operator symbol and the second operand, formatted as \<open>a op b = ?\<close>; and the answer is
  the sum, the difference or the product of these operands, after the operator.
\<close>

theorem generated_answer_correct:
  "\<exists>a b op ans e'. generateEquation e
       = Return ((fmt_d a @ '' '' @ op @ '' '' @ fmt_d b @ '' = ?'', ans), e')
     \<and> (op = ''+'' \<and> ans = a + b \<or> op = ''-'' \<and> ans = a - b \<or> op = ''*'' \<and> ans = a * b)"
proof -
  from generateEquation_cases [of e] obtain a b op e' where
    g: "generateEquation e = Return ((Sprintf_equation a op b, calculateAnswer a b op), e')"
    and o: "op = ''+'' \<or> op = ''-'' \<or> op = ''*''" by blast
  from o have "op = ''+'' \<and> calculateAnswer a b op = a + b
      \<or> op = ''-'' \<and> calculateAnswer a b op = a - b
      \<or> op = ''*'' \<and> calculateAnswer a b op = a * b"
    by (auto simp: calculateAnswer_def)
  with g show ?thesis unfolding Sprintf_equation_def by blast
qed

text \<open>
  C4. For \<open>+\<close> and \<open>*\<close> both operands lie in \<open>[1, 10]\<close>. For \<open>-\<close> the first
  operand lies in \<open>[1, 20]\<close> and the second in \<open>[1, a]\<close>, so that the answer
  \<open>a - b\<close> is not negative.
\<close>

theorem generated_operand_ranges:
  "\<exists>a b op e'. generateEquation e
       = Return ((Sprintf_equation a op b, calculateAnswer a b op), e')
     \<and> ((op = ''+'' \<or> op = ''*'') \<and> 1 \<le> a \<and> a \<le> 10 \<and> 1 \<le> b \<and> b \<le> 10
        \<or> op = ''-'' \<and> 1 \<le> a \<and> a \<le> 20 \<and> 1 \<le> b \<and> b \<le> a
           \<and> calculateAnswer a b op = a - b \<and> 0 \<le> a - b)"
proof -
  from generateEquation_cases [of e] obtain a b op e' where
    g: "generateEquation e = Return ((Sprintf_equation a op b, calculateAnswer a b op), e')"
    and o: "op = ''+'' \<and> 1 \<le> a \<and> a \<le> 10 \<and> 1 \<le> b \<and> b \<le> 10
        \<or> op = ''-'' \<and> 1 \<le> a \<and> a \<le> 20 \<and> 1 \<le> b \<and> b \<le> a
        \<or> op = ''*'' \<and> 1 \<le> a \<and> a \<le> 10 \<and> 1 \<le> b \<and> b \<le> 10" by blast
  from o have "(op = ''+'' \<or> op = ''*'') \<and> 1 \<le> a \<and> a \<le> 10 \<and> 1 \<le> b \<and> b \<le> 10
        \<or> op = ''-'' \<and> 1 \<le> a \<and> a \<le> 20 \<and> 1 \<le> b \<and> b \<le> a
           \<and> calculateAnswer a b op = a - b \<and> 0 \<le> a - b"
    by (auto simp: calculateAnswer_def)
  with g show ?thesis by blast
qed

section \<open>Properties of drawLine\<close>

lemma int64_id: "inInt64 v \<Longrightarrow> int64 v = v"
  by (simp add: int64_def inInt64_def)

lemma drawLine_next_stuck:
  "drawLine_next (- (2 ^ 63)) 0 (- 1) 1 0 0 (- (2 ^ 63)) = (0, 0, - (2 ^ 63))"
  by (simp add: drawLine_next_def int64_def Let_def)

lemma drawLine_loop_stuck:
  assumes "drawLine_loop setf img x0 y0 x1 y1 c dx dy sx sy err = Some y"
  shows "\<not> (x0 = 0 \<and> y0 = 0 \<and> x1 = - (2 ^ 63) \<and> y1 = 0 \<and> dx = - (2 ^ 63) \<and> dy = 0
            \<and> sx = - 1 \<and> sy = 1 \<and> err = - (2 ^ 63))"
proof (rule drawLine_loop.raw_induct
    [where P = "\<lambda>setf img x0 y0 x1 y1 c dx dy sx sy err y.
        \<not> (x0 = 0 \<and> y0 = 0 \<and> x1 = - (2 ^ 63) \<and> y1 = 0 \<and> dx = - (2 ^ 63) \<and> dy = 0
            \<and> sx = - 1 \<and> sy = 1 \<and> err = - (2 ^ 63))", OF _ assms])
  fix loop :: "('a \<Rightarrow> int \<Rightarrow> int \<Rightarrow> rgba \<Rightarrow> 'a) \<Rightarrow> 'a \<Rightarrow> int \<Rightarrow> int \<Rightarrow> int \<Rightarrow> int \<Rightarrow> rgba
     \<Rightarrow> int \<Rightarrow> int \<Rightarrow> int \<Rightarrow> int \<Rightarrow> int \<Rightarrow> 'a option"
    and setf img x0 y0 x1 y1 c dx dy sx sy err y
  assume ih: "\<And>setf img x0 y0 x1 y1 c dx dy sx sy err y.
      loop setf img x0 y0 x1 y1 c dx dy sx sy err = Some y \<Longrightarrow>
      \<not> (x0 = 0 \<and> y0 = 0 \<and> x1 = - (2 ^ 63) \<and> y1 = 0 \<and> dx = - (2 ^ 63) \<and> dy = 0
            \<and> sx = - 1 \<and> sy = 1 \<and> err = - (2 ^ 63))"
    and body: "(let img1 = setf img x0 y0 c
      in if x0 = x1 \<and> y0 = y1 then Some img1
         else let s = drawLine_next dx dy sx sy x0 y0 err
              in loop setf img1 (fst s) (fst (snd s)) x1 y1 c dx dy sx sy (snd (snd s))) = Some y"
  show "\<not> (x0 = 0 \<and> y0 = 0 \<and> x1 = - (2 ^ 63) \<and> y1 = 0 \<and> dx = - (2 ^ 63) \<and> dy = 0
            \<and> sx = - 1 \<and> sy = 1 \<and> err = - (2 ^ 63))"
  proof
    assume s: "x0 = 0 \<and> y0 = 0 \<and> x1 = - (2 ^ 63) \<and> y1 = 0 \<and> dx = - (2 ^ 63) \<and> dy = 0
            \<and> sx = - 1 \<and> sy = 1 \<and> err = - (2 ^ 63)"
    with body have "loop setf (setf img 0 0 c) 0 0 (- (2 ^ 63)) 0 c (- (2 ^ 63)) 0 (- 1) 1 (- (2 ^ 63)) = Some y"
      by (simp add: drawLine_next_def int64_def Let_def)
    from ih [OF this] show False by simp
  qed
qed

lemma prod_ge_self: "(1::int) \<le> r \<Longrightarrow> 0 \<le> d \<Longrightarrow> d \<le> r * d"
  using mult_right_mono [of 1 r d] by simp

lemma drawLine_next_exact:
  assumes d: "0 \<le> dx" "dx \<le> 2 ^ 61" "0 \<le> dy" "dy \<le> 2 ^ 61"
    and e: "\<bar>err\<bar> \<le> 3 * 2 ^ 60"
    and x: "2 * err > - dy \<Longrightarrow> inInt64 (x0 + sx)"
    and y: "2 * err < dx \<Longrightarrow> inInt64 (y0 + sy)"
  shows "drawLine_next dx dy sx sy x0 y0 err =
     (if 2 * err > - dy then x0 + sx else x0,
      if 2 * err < dx then y0 + sy else y0,
      (if 2 * err > - dy then err - dy else err) + (if 2 * err < dx then dx else 0))"
proof -
  have el: "- (3 * 2 ^ 60) \<le> err" "err \<le> 3 * 2 ^ 60" using e by simp_all
  have e2: "int64 (2 * err) = 2 * err"
    using el by (intro int64_id) (simp add: inInt64_def)
  have nd: "int64 (- dy) = - dy"
    using d by (intro int64_id) (simp add: inInt64_def)
  have e1: "int64 (err - dy) = err - dy"
    using d el by (intro int64_id) (simp add: inInt64_def)
  have e3: "int64 (err + dx) = err + dx" "int64 (err - dy + dx) = err - dy + dx"
    using d el by (intro int64_id; simp add: inInt64_def)+
  have sx: "2 * err > - dy \<Longrightarrow> int64 (x0 + sx) = x0 + sx"
    using x by (intro int64_id)
  have sy: "2 * err < dx \<Longrightarrow> int64 (y0 + sy) = y0 + sy"
    using y by (intro int64_id)
  show ?thesis
    unfolding drawLine_next_def Let_def e2 nd
    using e1 e3 sx sy by simp
qed

lemma runs_final:
  "runs setf x1 y1 c dx dy sx sy 0 0 [(x1, y1)]"
  by (simp add: runs_def drawLine_loop.simps [of _ _ x1 y1 x1 y1] Set_all_def Set_log_def)

lemma runs_step:
  assumes "runs setf x1 y1 c dx dy sx sy rx' ry' ps"
    and "x1 - sx * rx \<noteq> x1 \<or> y1 - sy * ry \<noteq> y1"
    and "rx' = (if 2 * (dx - dy + (rx * dy - ry * dx)) > - dy then rx - 1 else rx)"
    and "ry' = (if 2 * (dx - dy + (rx * dy - ry * dx)) < dx then ry - 1 else ry)"
    and nw: "noWrap x1 y1 dx dy sx sy"
    and d0: "0 \<le> dx" "0 \<le> dy"
    and dev: "2 * \<bar>rx * dy - ry * dx\<bar> \<le> max dx dy"
    and r': "0 \<le> rx'" "rx' \<le> dx" "0 \<le> ry'" "ry' \<le> dy"
  shows "runs setf x1 y1 c dx dy sx sy rx ry ((x1 - sx * rx, y1 - sy * ry) # ps)"
proof -
  let ?err = "dx - dy + (rx * dy - ry * dx)"
  have db: "dx \<le> 2 ^ 61" "dy \<le> 2 ^ 61" using nw by (simp_all add: noWrap_def)
  define D where "D = rx * dy - ry * dx"
  have "2 * \<bar>D\<bar> \<le> max dx dy" using dev by (simp add: D_def)
  also have "max dx dy \<le> 2 ^ 61" using db by simp
  finally have "- (2 ^ 60) \<le> D" "D \<le> 2 ^ 60" by simp_all
  then have "- (3 * 2 ^ 60) \<le> dx - dy + D" "dx - dy + D \<le> 3 * 2 ^ 60"
    using db d0 by simp_all
  then have eb: "\<bar>?err\<bar> \<le> 3 * 2 ^ 60"
    unfolding D_def by (simp add: abs_le_iff)
  have fx: "inInt64 (x1 - sx * rx')" and fy: "inInt64 (y1 - sy * ry')"
    using nw r' by (simp_all add: noWrap_def)
  have nx: "(if 2 * ?err > - dy then x1 - sx * rx + sx else x1 - sx * rx) = x1 - sx * rx'"
    using assms(3) by (simp add: algebra_simps)
  have ny: "(if 2 * ?err < dx then y1 - sy * ry + sy else y1 - sy * ry) = y1 - sy * ry'"
    using assms(4) by (simp add: algebra_simps)
  have ne: "(if 2 * ?err > - dy then ?err - dy else ?err) + (if 2 * ?err < dx then dx else 0)
      = dx - dy + (rx' * dy - ry' * dx)"
    using assms(3,4) by (simp add: algebra_simps)
  have "drawLine_next dx dy sx sy (x1 - sx * rx) (y1 - sy * ry) ?err =
     (if 2 * ?err > - dy then x1 - sx * rx + sx else x1 - sx * rx,
      if 2 * ?err < dx then y1 - sy * ry + sy else y1 - sy * ry,
      (if 2 * ?err > - dy then ?err - dy else ?err) + (if 2 * ?err < dx then dx else 0))"
  proof (rule drawLine_next_exact [OF d0(1) db(1) d0(2) db(2) eb])
    assume "- dy < 2 * ?err"
    with nx have "x1 - sx * rx + sx = x1 - sx * rx'" by (simp only: if_True)
    with fx show "inInt64 (x1 - sx * rx + sx)" by (simp only:)
  next
    assume "2 * ?err < dx"
    with ny have "y1 - sy * ry + sy = y1 - sy * ry'" by (simp only: if_True)
    with fy show "inInt64 (y1 - sy * ry + sy)" by (simp only:)
  qed
  then have nxt: "drawLine_next dx dy sx sy (x1 - sx * rx) (y1 - sy * ry) ?err
      = (x1 - sx * rx', y1 - sy * ry', dx - dy + (rx' * dy - ry' * dx))"
    unfolding nx ny ne .
  have u: "\<And>(f :: 'j \<Rightarrow> int \<Rightarrow> int \<Rightarrow> rgba \<Rightarrow> 'j) im.
       drawLine_loop f im (x1 - sx * rx) (y1 - sy * ry) x1 y1 c dx dy sx sy ?err
       = drawLine_loop f (f im (x1 - sx * rx) (y1 - sy * ry) c) (x1 - sx * rx') (y1 - sy * ry')
           x1 y1 c dx dy sx sy (dx - dy + (rx' * dy - ry' * dx))"
    apply (subst drawLine_loop.simps)
    using assms(2) unfolding nxt Let_def by auto
  show ?thesis
    using assms(1) unfolding runs_def u by (simp add: Set_all_def Set_log_def)
qed

lemma loop_xmajor:
  fixes setf :: "'i \<Rightarrow> int \<Rightarrow> int \<Rightarrow> rgba \<Rightarrow> 'i"
  assumes "sx = 1 \<or> sx = - 1" "sy = 1 \<or> sy = - 1"
    and "0 \<le> dy" "dy < dx"
    and "rx = int n" "0 \<le> ry" "ry \<le> dy" "rx \<le> dx"
    and "- dx \<le> 2 * (rx * dy - ry * dx)" "2 * (rx * dy - ry * dx) < dx"
    and "noWrap x1 y1 dx dy sx sy"
  shows "\<exists>ps. length ps = n + 1 \<and> runs setf x1 y1 c dx dy sx sy rx ry ps
     \<and> (\<forall>k<length ps. \<exists>ry'. onWalk x1 y1 dx dy sx sy (rx - int k) ry' (ps ! k))"
  using assms
proof (induction n arbitrary: rx ry)
  case 0
  then have "rx = 0" by simp
  have "ry = 0"
  proof (rule ccontr)
    assume "ry \<noteq> 0"
    with 0 have "1 \<le> ry" by simp
    then have "dx \<le> ry * dx" using 0 by (intro prod_ge_self) auto
    with 0 \<open>rx = 0\<close> show False by simp
  qed
  have "onWalk x1 y1 dx dy sx sy 0 0 (x1, y1)" using 0 by (simp add: onWalk_def)
  then show ?case
    using \<open>rx = 0\<close> \<open>ry = 0\<close> runs_final [of setf x1 y1 c dx dy sx sy]
    by (intro exI [of _ "[(x1, y1)]"]) auto
next
  case (Suc n)
  define D where "D = rx * dy - ry * dx"
  let ?err = "dx - dy + (rx * dy - ry * dx)"
  have err: "?err = dx - dy + D" by (simp add: D_def)
  have bD: "- dx \<le> 2 * D" "2 * D < dx" using Suc.prems(9,10) by (simp_all add: D_def)
  have d: "0 \<le> dy" "dy < dx" using Suc.prems by simp_all
  have rx: "rx = int n + 1" "1 \<le> rx" using Suc.prems by simp_all
  have notfin: "x1 - sx * rx \<noteq> x1" using Suc.prems(1) rx by auto
  have xstep: "2 * ?err > - dy" unfolding err using bD d by simp
  define ry' where "ry' = (if 2 * ?err < dx then ry - 1 else ry)"
  have ry'0: "0 \<le> ry'"
  proof (cases "2 * ?err < dx")
    case True
    have "ry \<noteq> 0"
    proof
      assume z: "ry = 0"
      have "dy \<le> rx * dy" using rx d by (intro prod_ge_self) auto
      then have "dy \<le> D" using z by (simp add: D_def)
      with True d show False unfolding err by simp
    qed
    with Suc.prems True show ?thesis by (simp add: ry'_def)
  next
    case False
    with Suc.prems show ?thesis by (simp add: ry'_def)
  qed
  have D': "(rx - 1) * dy - ry' * dx = (if 2 * ?err < dx then D - dy + dx else D - dy)"
    by (simp add: ry'_def D_def algebra_simps)
  have "\<exists>ps. length ps = n + 1 \<and> runs setf x1 y1 c dx dy sx sy (rx - 1) ry' ps
     \<and> (\<forall>k<length ps. \<exists>r. onWalk x1 y1 dx dy sx sy (rx - 1 - int k) r (ps ! k))"
  proof (rule Suc.IH)
    show "- dx \<le> 2 * ((rx - 1) * dy - ry' * dx)" unfolding D' err using bD d by auto
    show "2 * ((rx - 1) * dy - ry' * dx) < dx" unfolding D' err using bD d by auto
  qed (use Suc.prems rx ry'0 in \<open>auto simp: ry'_def\<close>)
  then obtain ps where ps: "length ps = n + 1" "runs setf x1 y1 c dx dy sx sy (rx - 1) ry' ps"
    "\<And>k. k < length ps \<Longrightarrow> \<exists>r. onWalk x1 y1 dx dy sx sy (rx - 1 - int k) r (ps ! k)"
    by blast
  let ?p = "(x1 - sx * rx, y1 - sy * ry)"
  have dv: "2 * \<bar>D\<bar> \<le> dx" using bD by simp
  have r: "runs setf x1 y1 c dx dy sx sy rx ry (?p # ps)"
  proof (rule runs_step [where rx' = "rx - 1" and ry' = ry'])
    show "runs setf x1 y1 c dx dy sx sy (rx - 1) ry' ps" by (rule ps(2))
    show "x1 - sx * rx \<noteq> x1 \<or> y1 - sy * ry \<noteq> y1" using notfin by simp
    show "rx - 1 = (if 2 * ?err > - dy then rx - 1 else rx)" using xstep by simp
    show "ry' = (if 2 * ?err < dx then ry - 1 else ry)" by (simp add: ry'_def)
    show "noWrap x1 y1 dx dy sx sy" by (rule Suc.prems(11))
    show "0 \<le> dx" "0 \<le> dy" using d by simp_all
    show "2 * \<bar>rx * dy - ry * dx\<bar> \<le> max dx dy" using dv d by (simp add: D_def)
    show "0 \<le> rx - 1" "rx - 1 \<le> dx" using rx Suc.prems(8) by simp_all
    show "0 \<le> ry'" by (rule ry'0)
    show "ry' \<le> dy" using Suc.prems(7) by (simp add: ry'_def)
  qed
  from dv have here: "onWalk x1 y1 dx dy sx sy rx ry ?p"
    using Suc.prems(6,7,8) rx d unfolding onWalk_def D_def by simp
  have "\<exists>r. onWalk x1 y1 dx dy sx sy (rx - int k) r ((?p # ps) ! k)" if "k < length (?p # ps)" for k
  proof (cases k)
    case 0
    with here show ?thesis by auto
  next
    case (Suc j)
    with that ps(3) [of j] show ?thesis by (simp add: algebra_simps)
  qed
  with r ps(1) show ?case by (intro exI [of _ "?p # ps"]) simp
qed

lemma loop_ymajor:
  fixes setf :: "'i \<Rightarrow> int \<Rightarrow> int \<Rightarrow> rgba \<Rightarrow> 'i"
  assumes "sx = 1 \<or> sx = - 1" "sy = 1 \<or> sy = - 1"
    and "0 \<le> dx" "dx < dy"
    and "ry = int n" "0 \<le> rx" "rx \<le> dx" "ry \<le> dy"
    and "- dy < 2 * (rx * dy - ry * dx)" "2 * (rx * dy - ry * dx) \<le> dy"
    and "noWrap x1 y1 dx dy sx sy"
  shows "\<exists>ps. length ps = n + 1 \<and> runs setf x1 y1 c dx dy sx sy rx ry ps
     \<and> (\<forall>k<length ps. \<exists>rx'. onWalk x1 y1 dx dy sx sy rx' (ry - int k) (ps ! k))"
  using assms
proof (induction n arbitrary: rx ry)
  case 0
  then have "ry = 0" by simp
  have "rx = 0"
  proof (rule ccontr)
    assume "rx \<noteq> 0"
    with 0 have "1 \<le> rx" by simp
    then have "dy \<le> rx * dy" using 0 by (intro prod_ge_self) auto
    with 0 \<open>ry = 0\<close> show False by simp
  qed
  have "onWalk x1 y1 dx dy sx sy 0 0 (x1, y1)" using 0 by (simp add: onWalk_def)
  then show ?case
    using \<open>rx = 0\<close> \<open>ry = 0\<close> runs_final [of setf x1 y1 c dx dy sx sy]
    by (intro exI [of _ "[(x1, y1)]"]) auto
next
  case (Suc n)
  define D where "D = rx * dy - ry * dx"
  let ?err = "dx - dy + (rx * dy - ry * dx)"
  have err: "?err = dx - dy + D" by (simp add: D_def)
  have bD: "- dy < 2 * D" "2 * D \<le> dy" using Suc.prems(9,10) by (simp_all add: D_def)
  have d: "0 \<le> dx" "dx < dy" using Suc.prems by simp_all
  have ry: "ry = int n + 1" "1 \<le> ry" using Suc.prems by simp_all
  have notfin: "y1 - sy * ry \<noteq> y1" using Suc.prems(2) ry by auto
  have ystep: "2 * ?err < dx" unfolding err using bD d by simp
  define rx' where "rx' = (if 2 * ?err > - dy then rx - 1 else rx)"
  have rx'0: "0 \<le> rx'"
  proof (cases "2 * ?err > - dy")
    case True
    have "rx \<noteq> 0"
    proof
      assume z: "rx = 0"
      have "dx \<le> ry * dx" using ry d by (intro prod_ge_self) auto
      then have "D \<le> - dx" using z by (simp add: D_def)
      with True d show False unfolding err by simp
    qed
    with Suc.prems True show ?thesis by (simp add: rx'_def)
  next
    case False
    with Suc.prems show ?thesis by (simp add: rx'_def)
  qed
  have D': "rx' * dy - (ry - 1) * dx = (if 2 * ?err > - dy then D - dy + dx else D + dx)"
    by (simp add: rx'_def D_def algebra_simps)
  have "\<exists>ps. length ps = n + 1 \<and> runs setf x1 y1 c dx dy sx sy rx' (ry - 1) ps
     \<and> (\<forall>k<length ps. \<exists>r. onWalk x1 y1 dx dy sx sy r (ry - 1 - int k) (ps ! k))"
  proof (rule Suc.IH)
    show "- dy < 2 * (rx' * dy - (ry - 1) * dx)" unfolding D' err using bD d by auto
    show "2 * (rx' * dy - (ry - 1) * dx) \<le> dy" unfolding D' err using bD d by auto
  qed (use Suc.prems ry rx'0 in \<open>auto simp: rx'_def\<close>)
  then obtain ps where ps: "length ps = n + 1" "runs setf x1 y1 c dx dy sx sy rx' (ry - 1) ps"
    "\<And>k. k < length ps \<Longrightarrow> \<exists>r. onWalk x1 y1 dx dy sx sy r (ry - 1 - int k) (ps ! k)"
    by blast
  let ?p = "(x1 - sx * rx, y1 - sy * ry)"
  have dv: "2 * \<bar>D\<bar> \<le> dy" using bD by simp
  have r: "runs setf x1 y1 c dx dy sx sy rx ry (?p # ps)"
  proof (rule runs_step [where rx' = rx' and ry' = "ry - 1"])
    show "runs setf x1 y1 c dx dy sx sy rx' (ry - 1) ps" by (rule ps(2))
    show "x1 - sx * rx \<noteq> x1 \<or> y1 - sy * ry \<noteq> y1" using notfin by simp
    show "rx' = (if 2 * ?err > - dy then rx - 1 else rx)" by (simp add: rx'_def)
    show "ry - 1 = (if 2 * ?err < dx then ry - 1 else ry)" using ystep by simp
    show "noWrap x1 y1 dx dy sx sy" by (rule Suc.prems(11))
    show "0 \<le> dx" "0 \<le> dy" using d by simp_all
    show "2 * \<bar>rx * dy - ry * dx\<bar> \<le> max dx dy" using dv d by (simp add: D_def)
    show "0 \<le> ry - 1" "ry - 1 \<le> dy" using ry Suc.prems(8) by simp_all
    show "0 \<le> rx'" by (rule rx'0)
    show "rx' \<le> dx" using Suc.prems(7) by (simp add: rx'_def)
  qed
  from dv have here: "onWalk x1 y1 dx dy sx sy rx ry ?p"
    using Suc.prems(6,7,8) ry d unfolding onWalk_def D_def by simp
  have "\<exists>r. onWalk x1 y1 dx dy sx sy r (ry - int k) ((?p # ps) ! k)" if "k < length (?p # ps)" for k
  proof (cases k)
    case 0
    with here show ?thesis by auto
  next
    case (Suc j)
    with that ps(3) [of j] show ?thesis by (simp add: algebra_simps)
  qed
  with r ps(1) show ?case by (intro exI [of _ "?p # ps"]) simp
qed

lemma loop_diagonal:
  fixes setf :: "'i \<Rightarrow> int \<Rightarrow> int \<Rightarrow> rgba \<Rightarrow> 'i"
  assumes "sx = 1 \<or> sx = - 1" "sy = 1 \<or> sy = - 1"
    and "r = int n" "r \<le> d"
    and "noWrap x1 y1 d d sx sy"
  shows "\<exists>ps. length ps = n + 1 \<and> runs setf x1 y1 c d d sx sy r r ps
     \<and> (\<forall>k<length ps. onWalk x1 y1 d d sx sy (r - int k) (r - int k) (ps ! k))"
  using assms
proof (induction n arbitrary: r)
  case 0
  then have "onWalk x1 y1 d d sx sy 0 0 (x1, y1)" by (simp add: onWalk_def)
  then show ?case
    using 0 runs_final [of setf x1 y1 c d d sx sy]
    by (intro exI [of _ "[(x1, y1)]"]) auto
next
  case (Suc n)
  have r: "r = int n + 1" "1 \<le> r" "1 \<le> d" using Suc.prems by simp_all
  have notfin: "x1 - sx * r \<noteq> x1" using Suc.prems(1) r by auto
  have "\<exists>ps. length ps = n + 1 \<and> runs setf x1 y1 c d d sx sy (r - 1) (r - 1) ps
     \<and> (\<forall>k<length ps. onWalk x1 y1 d d sx sy (r - 1 - int k) (r - 1 - int k) (ps ! k))"
    by (rule Suc.IH) (use Suc.prems r in auto)
  then obtain ps where ps: "length ps = n + 1" "runs setf x1 y1 c d d sx sy (r - 1) (r - 1) ps"
    "\<And>k. k < length ps \<Longrightarrow> onWalk x1 y1 d d sx sy (r - 1 - int k) (r - 1 - int k) (ps ! k)"
    by blast
  let ?p = "(x1 - sx * r, y1 - sy * r)"
  have run: "runs setf x1 y1 c d d sx sy r r (?p # ps)"
  proof (rule runs_step [where rx' = "r - 1" and ry' = "r - 1"])
    show "runs setf x1 y1 c d d sx sy (r - 1) (r - 1) ps" by (rule ps(2))
    show "x1 - sx * r \<noteq> x1 \<or> y1 - sy * r \<noteq> y1" using notfin by simp
    show "r - 1 = (if 2 * (d - d + (r * d - r * d)) > - d then r - 1 else r)" using r by simp
    show "r - 1 = (if 2 * (d - d + (r * d - r * d)) < d then r - 1 else r)" using r by simp
    show "noWrap x1 y1 d d sx sy" by (rule Suc.prems(5))
    show "0 \<le> d" "0 \<le> d" using r by simp_all
    show "2 * \<bar>r * d - r * d\<bar> \<le> max d d" using r by simp
    show "0 \<le> r - 1" "r - 1 \<le> d" "0 \<le> r - 1" "r - 1 \<le> d" using r Suc.prems(4) by simp_all
  qed
  have here: "onWalk x1 y1 d d sx sy r r ?p"
    using Suc.prems r unfolding onWalk_def by simp
  have "onWalk x1 y1 d d sx sy (r - int k) (r - int k) ((?p # ps) ! k)" if "k < length (?p # ps)" for k
  proof (cases k)
    case 0
    with here show ?thesis by auto
  next
    case (Suc j)
    with that ps(3) [of j] show ?thesis by (simp add: algebra_simps)
  qed
  with run ps(1) show ?case by (intro exI [of _ "?p # ps"]) simp
qed

lemma onWalk_geometry:
  assumes w: "onWalk x1 y1 dx dy sx sy rx ry p"
    and dx: "dx = \<bar>x1 - x0\<bar>" and dy: "dy = \<bar>y1 - y0\<bar>"
    and sx: "sx = (if x0 > x1 then - 1 else 1)" and sy: "sy = (if y0 > y1 then - 1 else 1)"
  shows "inBox x0 y0 x1 y1 p \<and> nearLine x0 y0 x1 y1 p
     \<and> fst p = x0 + sx * (dx - rx) \<and> snd p = y0 + sy * (dy - ry)"
proof -
  have ex: "x1 - x0 = sx * dx" and ey: "y1 - y0 = sy * dy"
    using dx dy sx sy by auto
  have s1: "\<bar>sx * sy\<bar> = 1" using sx sy by auto
  have p: "fst p = x1 - sx * rx" "snd p = y1 - sy * ry"
    and rg: "0 \<le> rx" "rx \<le> dx" "0 \<le> ry" "ry \<le> dy"
    and dev: "2 * \<bar>rx * dy - ry * dx\<bar> \<le> max dx dy"
    using w by (simp_all add: onWalk_def)
  have fx: "fst p - x0 = sx * (dx - rx)" and fy: "snd p - y0 = sy * (dy - ry)"
    using p ex ey by (simp_all add: algebra_simps)
  have "(fst p - x0) * (y1 - y0) - (snd p - y0) * (x1 - x0) = (sx * sy) * (ry * dx - rx * dy)"
    unfolding fx fy ex ey by (simp add: algebra_simps)
  then have "\<bar>(fst p - x0) * (y1 - y0) - (snd p - y0) * (x1 - x0)\<bar> = \<bar>rx * dy - ry * dx\<bar>"
    using s1 by (simp add: abs_mult abs_minus_commute)
  moreover have "max \<bar>x1 - x0\<bar> \<bar>y1 - y0\<bar> = max dx dy"
    using dx dy by simp
  ultimately have near: "nearLine x0 y0 x1 y1 p" using dev by (simp add: nearLine_def)
  have box: "inBox x0 y0 x1 y1 p"
    using fx fy rg dx dy sx sy unfolding inBox_def
    by (auto split: if_splits)
  from near box fx fy show ?thesis by (simp add: algebra_simps)
qed

lemma drawLine_init_exact:
  assumes "lineFits x0 y0 x1 y1"
  shows "drawLine_init x0 y0 x1 y1 =
     (\<bar>x1 - x0\<bar>, \<bar>y1 - y0\<bar>, if x0 > x1 then - 1 else 1, if y0 > y1 then - 1 else 1,
      \<bar>x1 - x0\<bar> - \<bar>y1 - y0\<bar>)"
proof -
  have b: "- (2 ^ 61) \<le> x1 - x0" "x1 - x0 \<le> 2 ^ 61" "- (2 ^ 61) \<le> y1 - y0" "y1 - y0 \<le> 2 ^ 61"
    using assms by (simp_all add: lineFits_def abs_le_iff)
  have x: "int64 (x1 - x0) = x1 - x0" and y: "int64 (y1 - y0) = y1 - y0"
    using b by (intro int64_id; simp add: inInt64_def)+
  have ax: "abs_int (x1 - x0) = \<bar>x1 - x0\<bar>"
  proof (cases "x1 - x0 < 0")
    case True
    have "int64 (- (x1 - x0)) = - (x1 - x0)"
      using b by (intro int64_id) (simp add: inInt64_def)
    with True show ?thesis unfolding abs_int_def by simp
  next
    case False
    then show ?thesis unfolding abs_int_def by simp
  qed
  have ay: "abs_int (y1 - y0) = \<bar>y1 - y0\<bar>"
  proof (cases "y1 - y0 < 0")
    case True
    have "int64 (- (y1 - y0)) = - (y1 - y0)"
      using b by (intro int64_id) (simp add: inInt64_def)
    with True show ?thesis unfolding abs_int_def by simp
  next
    case False
    then show ?thesis unfolding abs_int_def by simp
  qed
  have e: "int64 (\<bar>x1 - x0\<bar> - \<bar>y1 - y0\<bar>) = \<bar>x1 - x0\<bar> - \<bar>y1 - y0\<bar>"
    using b by (intro int64_id) (simp add: inInt64_def abs_if)
  show ?thesis
    unfolding drawLine_init_def Let_def x y ax ay e ..
qed

lemma lineFits_noWrap:
  assumes "lineFits x0 y0 x1 y1"
  shows "noWrap x1 y1 \<bar>x1 - x0\<bar> \<bar>y1 - y0\<bar>
           (if x0 > x1 then - 1 else 1) (if y0 > y1 then - 1 else 1)"
  using assms unfolding lineFits_def noWrap_def inInt64_def
  by (auto simp: abs_if split: if_splits)

lemma drawLine_runs:
  fixes setf :: "'i \<Rightarrow> int \<Rightarrow> int \<Rightarrow> rgba \<Rightarrow> 'i"
  assumes f: "lineFits x0 y0 x1 y1"
    and r: "runs setf x1 y1 c \<bar>x1 - x0\<bar> \<bar>y1 - y0\<bar>
             (if x0 > x1 then - 1 else 1) (if y0 > y1 then - 1 else 1)
             \<bar>x1 - x0\<bar> \<bar>y1 - y0\<bar> ps"
  shows "drawLine Set_log l x0 y0 x1 y1 c = Return (l @ ps)
     \<and> drawLine setf img x0 y0 x1 y1 c = Return (Set_all setf c img ps)
     \<and> ps \<noteq> [] \<and> hd ps = (x0, y0) \<and> last ps = (x1, y1)"
proof -
  let ?dx = "\<bar>x1 - x0\<bar>" and ?dy = "\<bar>y1 - y0\<bar>"
  let ?sx = "if x0 > x1 then - 1 else (1::int)" and ?sy = "if y0 > y1 then - 1 else (1::int)"
  have x0: "x1 - ?sx * ?dx = x0" and y0: "y1 - ?sy * ?dy = y0"
    by auto
  have e: "?dx - ?dy + (?dx * ?dy - ?dy * ?dx) = ?dx - ?dy" by simp
  from r have
    "drawLine_loop Set_log l (x1 - ?sx * ?dx) (y1 - ?sy * ?dy) x1 y1 c ?dx ?dy ?sx ?sy
        (?dx - ?dy + (?dx * ?dy - ?dy * ?dx)) = Some (l @ ps)"
    "drawLine_loop setf img (x1 - ?sx * ?dx) (y1 - ?sy * ?dy) x1 y1 c ?dx ?dy ?sx ?sy
        (?dx - ?dy + (?dx * ?dy - ?dy * ?dx)) = Some (Set_all setf c img ps)"
    "ps \<noteq> []" "hd ps = (x1 - ?sx * ?dx, y1 - ?sy * ?dy)" "last ps = (x1, y1)"
    unfolding runs_def by blast+
  then show ?thesis
    unfolding x0 y0 e by (simp add: drawLine_def drawLine_init_exact [OF f])
qed

lemma drawLine_points:
  fixes setf :: "'i \<Rightarrow> int \<Rightarrow> int \<Rightarrow> rgba \<Rightarrow> 'i"
  assumes fits: "lineFits x0 y0 x1 y1"
  shows "\<exists>ps. (\<forall>l. drawLine Set_log l x0 y0 x1 y1 c = Return (l @ ps))
      \<and> (\<forall>img. drawLine setf img x0 y0 x1 y1 c = Return (Set_all setf c img ps))
      \<and> int (length ps) = max \<bar>x1 - x0\<bar> \<bar>y1 - y0\<bar> + 1
      \<and> ps \<noteq> [] \<and> hd ps = (x0, y0) \<and> last ps = (x1, y1)
      \<and> (\<forall>k<length ps. inBox x0 y0 x1 y1 (ps ! k) \<and> nearLine x0 y0 x1 y1 (ps ! k)
           \<and> (\<bar>y1 - y0\<bar> \<le> \<bar>x1 - x0\<bar> \<longrightarrow>
                fst (ps ! k) = x0 + (if x0 > x1 then - 1 else 1) * int k)
           \<and> (\<bar>x1 - x0\<bar> \<le> \<bar>y1 - y0\<bar> \<longrightarrow>
                snd (ps ! k) = y0 + (if y0 > y1 then - 1 else 1) * int k))"
proof -
  define dx where "dx = \<bar>x1 - x0\<bar>"
  define dy where "dy = \<bar>y1 - y0\<bar>"
  define sx :: int where "sx = (if x0 > x1 then - 1 else 1)"
  define sy :: int where "sy = (if y0 > y1 then - 1 else 1)"
  have d0: "0 \<le> dx" "0 \<le> dy" and da: "dx = \<bar>x1 - x0\<bar>" "dy = \<bar>y1 - y0\<bar>"
    by (auto simp: dx_def dy_def)
  have nw: "noWrap x1 y1 dx dy sx sy"
    using lineFits_noWrap [OF fits] by (simp add: dx_def dy_def sx_def sy_def)
  have s: "sx = 1 \<or> sx = - 1" "sy = 1 \<or> sy = - 1" by (auto simp: sx_def sy_def)
  have geo: "inBox x0 y0 x1 y1 p \<and> nearLine x0 y0 x1 y1 p
     \<and> fst p = x0 + sx * (dx - rx) \<and> snd p = y0 + sy * (dy - ry)"
    if "onWalk x1 y1 dx dy sx sy rx ry p" for rx ry p
    using that by (rule onWalk_geometry) (simp_all add: dx_def dy_def sx_def sy_def)
  have "\<exists>ps. int (length ps) = max dx dy + 1 \<and> runs setf x1 y1 c dx dy sx sy dx dy ps
     \<and> (\<forall>k<length ps. \<exists>rx ry. onWalk x1 y1 dx dy sx sy rx ry (ps ! k)
            \<and> (dy \<le> dx \<longrightarrow> rx = dx - int k) \<and> (dx \<le> dy \<longrightarrow> ry = dy - int k))"
  proof -
    consider (xm) "dy < dx" | (ym) "dx < dy" | (dg) "dx = dy" by linarith
    then show ?thesis
    proof cases
      case xm
      have "\<exists>ps. length ps = nat dx + 1 \<and> runs setf x1 y1 c dx dy sx sy dx dy ps
         \<and> (\<forall>k<length ps. \<exists>ry'. onWalk x1 y1 dx dy sx sy (dx - int k) ry' (ps ! k))"
        by (rule loop_xmajor) (use s d0 xm nw in auto)
      then obtain ps where ps: "length ps = nat dx + 1" "runs setf x1 y1 c dx dy sx sy dx dy ps"
        "\<And>k. k < length ps \<Longrightarrow> \<exists>ry'. onWalk x1 y1 dx dy sx sy (dx - int k) ry' (ps ! k)"
        by blast
      have "\<exists>rx ry. onWalk x1 y1 dx dy sx sy rx ry (ps ! k)
            \<and> (dy \<le> dx \<longrightarrow> rx = dx - int k) \<and> (dx \<le> dy \<longrightarrow> ry = dy - int k)"
        if "k < length ps" for k
      proof -
        from ps(3) [OF that] obtain ry' where "onWalk x1 y1 dx dy sx sy (dx - int k) ry' (ps ! k)" ..
        with xm show ?thesis by (intro exI [of _ "dx - int k"] exI [of _ ry']) simp
      qed
      moreover have "int (length ps) = max dx dy + 1" using ps(1) xm d0 by simp
      ultimately show ?thesis using ps(2) by blast
    next
      case ym
      have "\<exists>ps. length ps = nat dy + 1 \<and> runs setf x1 y1 c dx dy sx sy dx dy ps
         \<and> (\<forall>k<length ps. \<exists>rx'. onWalk x1 y1 dx dy sx sy rx' (dy - int k) (ps ! k))"
        by (rule loop_ymajor) (use s d0 ym nw in auto)
      then obtain ps where ps: "length ps = nat dy + 1" "runs setf x1 y1 c dx dy sx sy dx dy ps"
        "\<And>k. k < length ps \<Longrightarrow> \<exists>rx'. onWalk x1 y1 dx dy sx sy rx' (dy - int k) (ps ! k)"
        by blast
      have "\<exists>rx ry. onWalk x1 y1 dx dy sx sy rx ry (ps ! k)
            \<and> (dy \<le> dx \<longrightarrow> rx = dx - int k) \<and> (dx \<le> dy \<longrightarrow> ry = dy - int k)"
        if "k < length ps" for k
      proof -
        from ps(3) [OF that] obtain rx' where "onWalk x1 y1 dx dy sx sy rx' (dy - int k) (ps ! k)" ..
        with ym show ?thesis by (intro exI [of _ rx'] exI [of _ "dy - int k"]) simp
      qed
      moreover have "int (length ps) = max dx dy + 1" using ps(1) ym d0 by simp
      ultimately show ?thesis using ps(2) by blast
    next
      case dg
      have "\<exists>ps. length ps = nat dx + 1 \<and> runs setf x1 y1 c dx dx sx sy dx dx ps
         \<and> (\<forall>k<length ps. onWalk x1 y1 dx dx sx sy (dx - int k) (dx - int k) (ps ! k))"
        by (rule loop_diagonal) (use s d0 nw dg in auto)
      then obtain ps where ps: "length ps = nat dx + 1" "runs setf x1 y1 c dx dx sx sy dx dx ps"
        "\<And>k. k < length ps \<Longrightarrow> onWalk x1 y1 dx dx sx sy (dx - int k) (dx - int k) (ps ! k)"
        by blast
      have "\<exists>rx ry. onWalk x1 y1 dx dy sx sy rx ry (ps ! k)
            \<and> (dy \<le> dx \<longrightarrow> rx = dx - int k) \<and> (dx \<le> dy \<longrightarrow> ry = dy - int k)"
        if "k < length ps" for k
        using ps(3) [OF that] dg
        by (intro exI [of _ "dx - int k"] exI [of _ "dx - int k"]) simp
      moreover have "int (length ps) = max dx dy + 1" using ps(1) dg d0 by simp
      ultimately show ?thesis using ps(2) dg by blast
    qed
  qed
  then obtain ps where len: "int (length ps) = max dx dy + 1"
    and run: "runs setf x1 y1 c dx dy sx sy dx dy ps"
    and pts: "\<And>k. k < length ps \<Longrightarrow> \<exists>rx ry. onWalk x1 y1 dx dy sx sy rx ry (ps ! k)
            \<and> (dy \<le> dx \<longrightarrow> rx = dx - int k) \<and> (dx \<le> dy \<longrightarrow> ry = dy - int k)"
    by blast
  have run': "runs setf x1 y1 c \<bar>x1 - x0\<bar> \<bar>y1 - y0\<bar>
             (if x0 > x1 then - 1 else 1) (if y0 > y1 then - 1 else 1)
             \<bar>x1 - x0\<bar> \<bar>y1 - y0\<bar> ps"
    using run by (simp add: dx_def dy_def sx_def sy_def)
  have a: "drawLine Set_log l x0 y0 x1 y1 c = Return (l @ ps)" for l
    using drawLine_runs [OF fits run'] by simp
  have b: "drawLine setf img x0 y0 x1 y1 c = Return (Set_all setf c img ps)" for img
    using drawLine_runs [OF fits run'] by simp
  have hl: "ps \<noteq> [] \<and> hd ps = (x0, y0) \<and> last ps = (x1, y1)"
    using drawLine_runs [OF fits run', THEN conjunct2, THEN conjunct2] .
  have c: "inBox x0 y0 x1 y1 (ps ! k) \<and> nearLine x0 y0 x1 y1 (ps ! k)
           \<and> (\<bar>y1 - y0\<bar> \<le> \<bar>x1 - x0\<bar> \<longrightarrow> fst (ps ! k) = x0 + sx * int k)
           \<and> (\<bar>x1 - x0\<bar> \<le> \<bar>y1 - y0\<bar> \<longrightarrow> snd (ps ! k) = y0 + sy * int k)"
    if "k < length ps" for k
  proof -
    from pts [OF that] obtain rx ry where w: "onWalk x1 y1 dx dy sx sy rx ry (ps ! k)"
      and m: "dy \<le> dx \<longrightarrow> rx = dx - int k" "dx \<le> dy \<longrightarrow> ry = dy - int k" by blast
    from geo [OF w] m show ?thesis unfolding da by auto
  qed
  from a b c len hl show ?thesis
    unfolding da sx_def sy_def by (intro exI [of _ ps]) simp
qed

lemma drawLine_loop_log_extends:
  assumes "drawLine_loop Set_log l x0 y0 x1 y1 c dx dy sx sy err = Some r"
  shows "\<exists>ps. r = l @ ps"
proof (rule drawLine_loop.raw_induct
    [where P = "\<lambda>setf l x0 y0 x1 y1 c dx dy sx sy err r. setf = Set_log \<longrightarrow> (\<exists>ps. r = l @ ps)",
     OF _ assms, THEN mp, OF _ refl])
  fix loop :: "((int \<times> int) list \<Rightarrow> int \<Rightarrow> int \<Rightarrow> rgba \<Rightarrow> (int \<times> int) list) \<Rightarrow> (int \<times> int) list
      \<Rightarrow> int \<Rightarrow> int \<Rightarrow> int \<Rightarrow> int \<Rightarrow> rgba \<Rightarrow> int \<Rightarrow> int \<Rightarrow> int \<Rightarrow> int \<Rightarrow> int \<Rightarrow> (int \<times> int) list option"
    and setf l x0 y0 x1 y1 c dx dy sx sy err r
  assume ih: "\<And>setf l x0 y0 x1 y1 c dx dy sx sy err r.
      loop setf l x0 y0 x1 y1 c dx dy sx sy err = Some r \<Longrightarrow> setf = Set_log \<longrightarrow> (\<exists>ps. r = l @ ps)"
    and body: "(let img1 = setf l x0 y0 c
      in if x0 = x1 \<and> y0 = y1 then Some img1
         else let s = drawLine_next dx dy sx sy x0 y0 err
              in loop setf img1 (fst s) (fst (snd s)) x1 y1 c dx dy sx sy (snd (snd s))) = Some r"
  show "setf = Set_log \<longrightarrow> (\<exists>ps. r = l @ ps)"
  proof
    assume s: "setf = Set_log"
    show "\<exists>ps. r = l @ ps"
    proof (cases "x0 = x1 \<and> y0 = y1")
      case True
      with body s have "r = l @ [(x0, y0)]" by (simp add: Set_log_def Let_def)
      then show ?thesis by blast
    next
      case False
      with body s have "loop Set_log (l @ [(x0, y0)]) (fst (drawLine_next dx dy sx sy x0 y0 err))
          (fst (snd (drawLine_next dx dy sx sy x0 y0 err))) x1 y1 c dx dy sx sy
          (snd (snd (drawLine_next dx dy sx sy x0 y0 err))) = Some r"
        by (simp add: Set_log_def Let_def)
      from ih [OF this] obtain ps where "r = (l @ [(x0, y0)]) @ ps" by blast
      then show ?thesis by simp
    qed
  qed
qed

lemma drawLine_loop_passes:
  "drawLine_loop Set_log l x0 y0 x1 y1 c dx dy sx sy err = Some r \<Longrightarrow>
   \<exists>qs. r = drawLine_passes n Set_log l x0 y0 x1 y1 c dx dy sx sy err @ qs"
proof (induction n arbitrary: l x0 y0 err)
  case 0
  then show ?case using drawLine_loop_log_extends by simp
next
  case (Suc n)
  show ?case
  proof (cases "x0 = x1 \<and> y0 = y1")
    case True
    with Suc.prems have "r = Set_log l x0 y0 c"
      by (subst (asm) drawLine_loop.simps) (simp add: Let_def)
    with True show ?thesis by (simp add: Let_def)
  next
    case False
    with Suc.prems have "drawLine_loop Set_log (Set_log l x0 y0 c)
          (fst (drawLine_next dx dy sx sy x0 y0 err))
          (fst (snd (drawLine_next dx dy sx sy x0 y0 err))) x1 y1 c dx dy sx sy
          (snd (snd (drawLine_next dx dy sx sy x0 y0 err))) = Some r"
      by (subst (asm) drawLine_loop.simps) (simp add: Let_def)
    from Suc.IH [OF this] obtain qs where
      "r = drawLine_passes n Set_log (Set_log l x0 y0 c)
          (fst (drawLine_next dx dy sx sy x0 y0 err))
          (fst (snd (drawLine_next dx dy sx sy x0 y0 err))) x1 y1 c dx dy sx sy
          (snd (snd (drawLine_next dx dy sx sy x0 y0 err))) @ qs" by blast
    with False show ?thesis by (auto simp: Let_def)
  qed
qed

lemma drawLine_upto_prefix:
  assumes "drawLine Set_log [] x0 y0 x1 y1 c = Return ps"
  shows "\<exists>qs. ps = drawLine_upto n Set_log [] x0 y0 x1 y1 c @ qs"
proof -
  obtain dx dy sx sy err where i: "drawLine_init x0 y0 x1 y1 = (dx, dy, sx, sy, err)"
    by (cases "drawLine_init x0 y0 x1 y1") auto
  from assms i have "drawLine_loop Set_log [] x0 y0 x1 y1 c dx dy sx sy err = Some ps"
    by (simp add: drawLine_def split: option.splits)
  from drawLine_loop_passes [OF this, of n] show ?thesis
    by (simp add: drawLine_upto_def i)
qed

section \<open>Properties of the calls of Set\<close>

lemma Set_all_append:
  "Set_all setf c img (ps @ qs) = Set_all setf c (Set_all setf c img ps) qs"
  by (simp add: Set_all_def)

lemma rect_Set_RGBA: "rect (Set_RGBA img x y c) = rect img"
  by (simp add: Set_RGBA_def)

lemma pix_Set_RGBA:
  "pix (Set_RGBA img x y c) p = (if p = (x, y) \<and> In p (rect img) then c else pix img p)"
  by (auto simp: Set_RGBA_def)

lemma rect_Set_all: "rect (Set_all Set_RGBA c img ps) = rect img"
  by (induction ps rule: rev_induct) (simp_all add: Set_all_def rect_Set_RGBA)

lemma Set_all_snoc:
  "Set_all setf c img (ps @ [q]) = setf (Set_all setf c img ps) (fst q) (snd q) c"
  by (simp add: Set_all_def)

lemma pix_Set_all:
  "pix (Set_all Set_RGBA c img ps) p = (if p \<in> set ps \<and> In p (rect img) then c else pix img p)"
proof (induction ps rule: rev_induct)
  case Nil
  show ?case by (simp add: Set_all_def)
next
  case (snoc q ps)
  then show ?case
    by (cases q) (auto simp: Set_all_snoc pix_Set_RGBA rect_Set_all)
qed

lemma drawLines_points:
  fixes setf :: "'i \<Rightarrow> int \<Rightarrow> int \<Rightarrow> rgba \<Rightarrow> 'i"
  assumes "\<forall>s\<in>set segs. lineFits (fst (fst s)) (snd (fst s)) (fst (snd s)) (snd (snd s))"
  shows "\<exists>pss. length pss = length segs
      \<and> (\<forall>k<length segs. drawLine Set_log [] (fst (fst (segs ! k))) (snd (fst (segs ! k)))
              (fst (snd (segs ! k))) (snd (snd (segs ! k))) Black = Return (pss ! k))
      \<and> (\<forall>l. drawLines Set_log l segs = Return (l @ concat pss))
      \<and> (\<forall>img. drawLines setf img segs = Return (Set_all setf Black img (concat pss)))"
  using assms
proof (induction segs)
  case Nil
  show ?case by (intro exI [of _ "[]"]) (simp add: Set_all_def)
next
  case (Cons s segs)
  then obtain pss where pss: "length pss = length segs"
    "\<And>k. k < length segs \<Longrightarrow> drawLine Set_log [] (fst (fst (segs ! k))) (snd (fst (segs ! k)))
              (fst (snd (segs ! k))) (snd (snd (segs ! k))) Black = Return (pss ! k)"
    "\<And>l. drawLines Set_log l segs = Return (l @ concat pss)"
    "\<And>img. drawLines setf img segs = Return (Set_all setf Black img (concat pss))"
    by auto
  from Cons.prems have f: "lineFits (fst (fst s)) (snd (fst s)) (fst (snd s)) (snd (snd s))"
    by simp
  from drawLine_points [OF f, of Black setf]
  obtain ps where ps:
    "\<And>l. drawLine Set_log l (fst (fst s)) (snd (fst s)) (fst (snd s)) (snd (snd s)) Black = Return (l @ ps)"
    "\<And>img. drawLine setf img (fst (fst s)) (snd (fst s)) (fst (snd s)) (snd (snd s)) Black
        = Return (Set_all setf Black img ps)"
    by blast
  have k: "drawLine Set_log [] (fst (fst ((s # segs) ! k))) (snd (fst ((s # segs) ! k)))
              (fst (snd ((s # segs) ! k))) (snd (snd ((s # segs) ! k))) Black = Return ((ps # pss) ! k)"
    if "k < length (s # segs)" for k
  proof (cases k)
    case 0
    with ps(1) [of "[]"] show ?thesis by simp
  next
    case (Suc j)
    with that pss(2) [of j] show ?thesis by simp
  qed
  show ?case
    apply (rule exI [of _ "ps # pss"])
    using pss(1,3,4) ps k by (simp add: Set_all_append)
qed

lemma andThen_assoc:
  "andThen (andThen m f) g = andThen m (\<lambda>x. andThen (f x) g)"
  by (cases m) simp_all

lemma case_outcome_andThen:
  "(case m of Return x \<Rightarrow> k x | Panics p \<Rightarrow> Panics p | Diverges \<Rightarrow> Diverges) = andThen m k"
  by (cases m) simp_all

lemma randInt_eval:
  "0 < mx \<Longrightarrow> randInt mx e = Return (int (e 0) mod mx, \<lambda>i. e (Suc i))"
  by (simp add: randInt_def rand_Int_def)

lemma addDistortion_loop_segments:
  fixes setf :: "'i \<Rightarrow> int \<Rightarrow> int \<Rightarrow> rgba \<Rightarrow> 'i"
  assumes "0 < width" "0 < height"
  shows "i \<le> 10 \<Longrightarrow> n = 10 - i \<Longrightarrow>
     addDistortion_loop setf i img width height (\<lambda>j. e (j + 4 * i))
       = andThen (drawLines setf img (map (stroke width height e) [i..<10]))
           (\<lambda>img'. Return (img', \<lambda>j. e (j + 40)))"
proof (induction n arbitrary: i img)
  case 0
  then have "i = 10" by simp
  then show ?case by (simp add: addDistortion_loop.simps)
next
  case (Suc n)
  then have i: "i < 10" "Suc i \<le> 10" "n = 10 - Suc i" by simp_all
  have sh: "(\<lambda>j. e (Suc (Suc (Suc (Suc (j + 4 * i)))))) = (\<lambda>j. e (j + 4 * (i + 1)))"
    by (intro ext arg_cong [of _ _ e]) simp
  have up: "[i..<10] = i # [Suc i..<10]" using i by (simp add: upt_conv_Cons)
  have st: "stroke width height e i
     = ((int (e (4 * i)) mod width, int (e (Suc (4 * i))) mod height),
        (int (e (Suc (Suc (4 * i)))) mod width, int (e (Suc (Suc (Suc (4 * i))))) mod height))"
    by (simp add: stroke_def eval_nat_numeral)
  have body: "addDistortion_body setf img width height (\<lambda>j. e (j + 4 * i))
      = andThen (drawLine setf img (fst (fst (stroke width height e i)))
                   (snd (fst (stroke width height e i))) (fst (snd (stroke width height e i)))
                   (snd (snd (stroke width height e i))) Black)
          (\<lambda>img'. Return (img', \<lambda>j. e (j + 4 * (i + 1))))"
    using assms by (simp add: addDistortion_body_def randInt_eval st sh)
  show ?case
    apply (subst addDistortion_loop.simps)
    apply (subst up)
    using i(1) Suc.IH [OF i(2,3)]
    by (simp add: body case_outcome_andThen andThen_assoc)
qed

lemma addDistortion_segments:
  fixes setf :: "'i \<Rightarrow> int \<Rightarrow> int \<Rightarrow> rgba \<Rightarrow> 'i"
  assumes "0 < width" "0 < height"
  shows "addDistortion setf img width height e
       = andThen (drawLines setf img (map (stroke width height e) [0..<10]))
           (\<lambda>img'. Return (img', \<lambda>j. e (j + 40)))"
  using addDistortion_loop_segments [OF assms, of 0 10 setf img e]
  by (simp add: addDistortion_def)

lemma stroke_in_canvas:
  assumes "0 < width" "0 < height"
  shows "In (fst (stroke width height e k)) (Rect 0 0 width height)
     \<and> In (snd (stroke width height e k)) (Rect 0 0 width height)"
  using assms by (simp add: stroke_def In_def Rect_def)

lemma inBox_In:
  assumes "inBox x0 y0 x1 y1 p" "In (x0, y0) r" "In (x1, y1) r"
  shows "In p r"
  using assms unfolding inBox_def In_def by auto

lemma lineFits_nonneg:
  assumes "0 \<le> a" "a \<le> 2 ^ 61" "0 \<le> b" "b \<le> 2 ^ 61" "0 \<le> c" "c \<le> 2 ^ 61" "0 \<le> d" "d \<le> 2 ^ 61"
  shows "lineFits a b c d"
  using assms by (simp add: lineFits_def inInt64_def abs_le_iff)

lemma mod_below:
  assumes "0 < m" "m \<le> 2 ^ 61"
  shows "0 \<le> int n mod m \<and> int n mod m \<le> 2 ^ 61"
proof -
  have "int n mod m < m" using assms(1) by (rule pos_mod_bound)
  with assms(2) have "int n mod m \<le> 2 ^ 61" by linarith
  moreover have "0 \<le> int n mod m" using assms(1) by simp
  ultimately show ?thesis by blast
qed

lemma stroke_lineFits:
  assumes "0 < width" "width \<le> 2 ^ 61" "0 < height" "height \<le> 2 ^ 61"
  shows "lineFits (fst (fst (stroke width height e k))) (snd (fst (stroke width height e k)))
           (fst (snd (stroke width height e k))) (snd (snd (stroke width height e k)))"
  unfolding stroke_def fst_conv snd_conv
  by (rule lineFits_nonneg) (use assms mod_below in blast)+

lemma addDistortion_points:
  fixes setf :: "'i \<Rightarrow> int \<Rightarrow> int \<Rightarrow> rgba \<Rightarrow> 'i"
  assumes w: "0 < width" "width \<le> 2 ^ 61" and h: "0 < height" "height \<le> 2 ^ 61"
  shows "\<exists>pss. length pss = 10
     \<and> (\<forall>k<10. drawLine Set_log [] (fst (fst (stroke width height e k)))
            (snd (fst (stroke width height e k))) (fst (snd (stroke width height e k)))
            (snd (snd (stroke width height e k))) Black = Return (pss ! k))
     \<and> (\<forall>l. addDistortion Set_log l width height e = Return (l @ concat pss, \<lambda>j. e (j + 40)))
     \<and> (\<forall>img. addDistortion setf img width height e
            = Return (Set_all setf Black img (concat pss), \<lambda>j. e (j + 40)))
     \<and> (\<forall>p\<in>set (concat pss). In p (Rect 0 0 width height))"
proof -
  let ?segs = "map (stroke width height e) [0..<10]"
  have fits: "lineFits (fst (fst (stroke width height e k))) (snd (fst (stroke width height e k)))
           (fst (snd (stroke width height e k))) (snd (snd (stroke width height e k)))" for k
    by (rule stroke_lineFits [OF w h])
  then have "\<forall>s\<in>set ?segs. lineFits (fst (fst s)) (snd (fst s)) (fst (snd s)) (snd (snd s))"
    by auto
  from drawLines_points [OF this, of setf] obtain pss where
    len: "length pss = 10"
    and k: "\<And>k. k < 10 \<Longrightarrow> drawLine Set_log [] (fst (fst (stroke width height e k)))
            (snd (fst (stroke width height e k))) (fst (snd (stroke width height e k)))
            (snd (snd (stroke width height e k))) Black = Return (pss ! k)"
    and a: "\<And>l. drawLines Set_log l ?segs = Return (l @ concat pss)"
    and b: "\<And>img. drawLines setf img ?segs = Return (Set_all setf Black img (concat pss))"
    by auto
  have "In p (Rect 0 0 width height)" if "p \<in> set (concat pss)" for p
  proof -
    from that obtain ys where "ys \<in> set pss" "p \<in> set ys" by auto
    with len obtain j where j: "j < 10" "p \<in> set (pss ! j)"
      by (metis in_set_conv_nth)
    let ?s = "stroke width height e j"
    from drawLine_points [OF fits [of j], of Black Set_RGBA] obtain ps where
      "\<And>l. drawLine Set_log l (fst (fst ?s)) (snd (fst ?s)) (fst (snd ?s)) (snd (snd ?s)) Black
          = Return (l @ ps)"
      and bx: "\<forall>i<length ps. inBox (fst (fst ?s)) (snd (fst ?s)) (fst (snd ?s)) (snd (snd ?s)) (ps ! i)"
      by blast
    from this(1) [of "[]"] k [OF j(1)] have "pss ! j = ps" by simp
    with j(2) bx have "inBox (fst (fst ?s)) (snd (fst ?s)) (fst (snd ?s)) (snd (snd ?s)) p"
      by (auto simp: in_set_conv_nth)
    moreover from stroke_in_canvas [OF w(1) h(1), of e j]
    have "In (fst (fst ?s), snd (fst ?s)) (Rect 0 0 width height)"
      "In (fst (snd ?s), snd (snd ?s)) (Rect 0 0 width height)" by simp_all
    ultimately show ?thesis by (rule inBox_In)
  qed
  then show ?thesis
    using len k a b by (intro exI [of _ pss]) (simp add: addDistortion_segments [OF w(1) h(1)])
qed

text \<open>
  C8, as the code has it. Go's \<open>int\<close> has 64 bits. For endpoints whose coordinates are
  Go \<open>int\<close>s and whose bounding box has sides of at most \<open>2 ^ 61\<close>, \<open>drawLine\<close>
  returns. It calls \<open>Set\<close> exactly \<open>max |dx| |dy| + 1\<close> times, first at the start
  point and last at the end point, the \<open>k\<close>-th call being \<open>k\<close> pixels from the start
  along the major axis (one pixel of the major axis for each iteration); the error term
  is integer arithmetic only; and every pixel written lies in the bounding box of the
  endpoints and at most half a pixel from the ideal line, measured along the minor axis.
  On an image the result is the image after these calls of \<open>Set\<close>.
\<close>

theorem drawLine_terminates_near_line:
  assumes "lineFits x0 y0 x1 y1"
  shows "\<exists>ps. drawLine Set_log [] x0 y0 x1 y1 c = Return ps
     \<and> drawLine Set_RGBA img x0 y0 x1 y1 c = Return (Set_all Set_RGBA c img ps)
     \<and> int (length ps) = max \<bar>x1 - x0\<bar> \<bar>y1 - y0\<bar> + 1
     \<and> hd ps = (x0, y0) \<and> last ps = (x1, y1)
     \<and> (\<forall>k<length ps. nearLine x0 y0 x1 y1 (ps ! k) \<and> inBox x0 y0 x1 y1 (ps ! k)
          \<and> (\<bar>y1 - y0\<bar> \<le> \<bar>x1 - x0\<bar> \<longrightarrow>
                fst (ps ! k) = x0 + (if x0 > x1 then - 1 else 1) * int k)
          \<and> (\<bar>x1 - x0\<bar> \<le> \<bar>y1 - y0\<bar> \<longrightarrow>
                snd (ps ! k) = y0 + (if y0 > y1 then - 1 else 1) * int k))"
proof -
  from drawLine_points [OF assms, of c Set_RGBA] obtain ps where
    a: "\<And>l. drawLine Set_log l x0 y0 x1 y1 c = Return (l @ ps)"
    and b: "\<And>img. drawLine Set_RGBA img x0 y0 x1 y1 c = Return (Set_all Set_RGBA c img ps)"
    and c: "int (length ps) = max \<bar>x1 - x0\<bar> \<bar>y1 - y0\<bar> + 1"
    and h: "hd ps = (x0, y0)" "last ps = (x1, y1)"
    and d: "\<forall>k<length ps. inBox x0 y0 x1 y1 (ps ! k) \<and> nearLine x0 y0 x1 y1 (ps ! k)
           \<and> (\<bar>y1 - y0\<bar> \<le> \<bar>x1 - x0\<bar> \<longrightarrow>
                fst (ps ! k) = x0 + (if x0 > x1 then - 1 else 1) * int k)
           \<and> (\<bar>x1 - x0\<bar> \<le> \<bar>y1 - y0\<bar> \<longrightarrow>
                snd (ps ! k) = y0 + (if y0 > y1 then - 1 else 1) * int k)"
    by blast
  have "drawLine Set_log [] x0 y0 x1 y1 c = Return ps" using a [of "[]"] by simp
  moreover note b [of img] c h
  moreover have "\<forall>k<length ps. nearLine x0 y0 x1 y1 (ps ! k) \<and> inBox x0 y0 x1 y1 (ps ! k)
          \<and> (\<bar>y1 - y0\<bar> \<le> \<bar>x1 - x0\<bar> \<longrightarrow>
                fst (ps ! k) = x0 + (if x0 > x1 then - 1 else 1) * int k)
          \<and> (\<bar>x1 - x0\<bar> \<le> \<bar>y1 - y0\<bar> \<longrightarrow>
                snd (ps ! k) = y0 + (if y0 > y1 then - 1 else 1) * int k)"
    using d by blast
  ultimately show ?thesis by blast
qed

theorem drawLine_terminates_near_line_witness:
  "lineFits 0 0 5 2
   \<and> drawLine Set_log [] 0 0 5 2 Black = Return [(0, 0), (1, 0), (2, 1), (3, 1), (4, 2), (5, 2)]
   \<and> nearLine 0 0 5 2 (2, 1) \<and> inBox 0 0 5 2 (2, 1)"
proof -
  have f: "lineFits 0 0 5 2" by (simp add: lineFits_def inInt64_def)
  have v: "drawLine Set_log [] 0 0 5 2 Black = Return [(0, 0), (1, 0), (2, 1), (3, 1), (4, 2), (5, 2)]"
    by code_simp
  obtain ps where
    p: "drawLine Set_log [] 0 0 5 2 Black = Return ps"
    and q: "\<And>k. k < length ps \<Longrightarrow> nearLine 0 0 5 2 (ps ! k) \<and> inBox 0 0 5 2 (ps ! k)"
    using drawLine_terminates_near_line [OF f, of Black "NewRGBA (Rect 0 0 200 80)"] by blast
  from p v have ps: "ps = [(0, 0), (1, 0), (2, 1), (3, 1), (4, 2), (5, 2)]" by simp
  have "nearLine 0 0 5 2 (ps ! 2) \<and> inBox 0 0 5 2 (ps ! 2)"
    by (rule q) (simp add: ps)
  then have "nearLine 0 0 5 2 (2, 1) \<and> inBox 0 0 5 2 (2, 1)" by (simp add: ps)
  with f v show ?thesis by (intro conjI) (rule f, rule v, simp_all)
qed

text \<open>
  From \<open>(0, 0)\<close> to \<open>(- 2 ^ 63, 0)\<close>, both points of Go \<open>int\<close>s: \<open>x1 - x0\<close> is
  \<open>- 2 ^ 63\<close>, whose negation wraps around to itself, so \<open>dx\<close> and the error term are
  \<open>- 2 ^ 63\<close>; twice the error term wraps around to \<open>0\<close>, neither branch of the loop
  is taken, and every pass writes \<open>(0, 0)\<close> again: \<open>drawLine\<close> does not return.
\<close>

theorem drawLine_never_returns:
  "inInt64 (- (2 ^ 63))
   \<and> drawLine_init 0 0 (- (2 ^ 63)) 0 = (- (2 ^ 63), 0, - 1, 1, - (2 ^ 63))
   \<and> drawLine_upto 4 Set_log [] 0 0 (- (2 ^ 63)) 0 Black = [(0, 0), (0, 0), (0, 0), (0, 0)]
   \<and> drawLine Set_log [] 0 0 (- (2 ^ 63)) 0 Black = Diverges"
proof -
  have n: "inInt64 (- (2 ^ 63))" by (simp add: inInt64_def)
  have i: "drawLine_init 0 0 (- (2 ^ 63)) 0 = (- (2 ^ 63), 0, - 1, 1, - (2 ^ 63))"
    by (simp add: drawLine_init_def abs_int_def int64_def Let_def)
  have u: "drawLine_upto 4 Set_log [] 0 0 (- (2 ^ 63)) 0 Black = [(0, 0), (0, 0), (0, 0), (0, 0)]"
    by (simp add: drawLine_upto_def drawLine_init_def abs_int_def int64_def Let_def
        eval_nat_numeral drawLine_next_def Set_log_def)
  have "drawLine_loop Set_log [] 0 0 (- (2 ^ 63)) 0 Black (- (2 ^ 63)) 0 (- 1) 1 (- (2 ^ 63)) = None"
  proof (cases "drawLine_loop Set_log [] 0 0 (- (2 ^ 63)) 0 Black (- (2 ^ 63)) 0 (- 1) 1 (- (2 ^ 63))")
    case None
    then show ?thesis .
  next
    case (Some y)
    from drawLine_loop_stuck [OF this] show ?thesis by simp
  qed
  with i have d: "drawLine Set_log [] 0 0 (- (2 ^ 63)) 0 Black = Diverges"
    by (simp add: drawLine_def)
  from n i u d show ?thesis by (intro conjI)
qed

text \<open>
  C10, as the code has it. For endpoints whose coordinates are Go \<open>int\<close>s and whose
  bounding box has sides of at most \<open>2 ^ 61\<close>, every pixel that \<open>drawLine\<close> writes lies
  in the bounding box of the two endpoints. The endpoints of the ten strokes of
  \<open>addDistortion\<close> on a canvas of 200 by 80 lie in the canvas, so every call of \<open>Set\<close>
  that \<open>addDistortion\<close> makes is at a point of the canvas: none is ignored by \<open>Set\<close>,
  and each of these pixels is black afterwards.
\<close>

theorem noise_strokes_inside_canvas:
  "(lineFits x0 y0 x1 y1 \<longrightarrow>
      (\<exists>ps. drawLine Set_log [] x0 y0 x1 y1 c = Return ps \<and> (\<forall>p\<in>set ps. inBox x0 y0 x1 y1 p)))
   \<and> (\<forall>k<10. In (fst (stroke 200 80 e k)) (Rect 0 0 200 80)
             \<and> In (snd (stroke 200 80 e k)) (Rect 0 0 200 80))
   \<and> (\<exists>ps. addDistortion Set_log [] 200 80 e = Return (ps, \<lambda>j. e (j + 40))
        \<and> (\<forall>p\<in>set ps. In p (Rect 0 0 200 80))
        \<and> (\<forall>img. addDistortion Set_RGBA img 200 80 e
              = Return (Set_all Set_RGBA Black img ps, \<lambda>j. e (j + 40)))
        \<and> (\<forall>img. rect img = Rect 0 0 200 80 \<longrightarrow>
              (\<forall>p\<in>set ps. pix (Set_all Set_RGBA Black img ps) p = Black)))"
proof (intro conjI impI)
  assume f: "lineFits x0 y0 x1 y1"
  from drawLine_points [OF f, of c Set_RGBA] obtain ps where
    a: "\<And>l. drawLine Set_log l x0 y0 x1 y1 c = Return (l @ ps)"
    and d: "\<forall>k<length ps. inBox x0 y0 x1 y1 (ps ! k)"
    by blast
  from d have "\<forall>p\<in>set ps. inBox x0 y0 x1 y1 p" by (metis in_set_conv_nth)
  with a [of "[]"] show "\<exists>ps. drawLine Set_log [] x0 y0 x1 y1 c = Return ps
      \<and> (\<forall>p\<in>set ps. inBox x0 y0 x1 y1 p)" by auto
next
  show "\<forall>k<10. In (fst (stroke 200 80 e k)) (Rect 0 0 200 80)
             \<and> In (snd (stroke 200 80 e k)) (Rect 0 0 200 80)"
    using stroke_in_canvas [of 200 80 e] by simp
next
  have w: "(0::int) < 200" "(200::int) \<le> 2 ^ 61" and h: "(0::int) < 80" "(80::int) \<le> 2 ^ 61"
    by simp_all
  from addDistortion_points [OF w h, where setf = Set_RGBA and e = e] obtain pss where
    a: "\<And>l. addDistortion Set_log l 200 80 e = Return (l @ concat pss, \<lambda>j. e (j + 40))"
    and b: "\<And>img. addDistortion Set_RGBA img 200 80 e
            = Return (Set_all Set_RGBA Black img (concat pss), \<lambda>j. e (j + 40))"
    and c: "\<forall>p\<in>set (concat pss). In p (Rect 0 0 200 80)"
    by blast
  have "\<forall>img. rect img = Rect 0 0 200 80 \<longrightarrow>
          (\<forall>p\<in>set (concat pss). pix (Set_all Set_RGBA Black img (concat pss)) p = Black)"
    using c by (simp add: pix_Set_all)
  with a [of "[]"] b c
  show "\<exists>ps. addDistortion Set_log [] 200 80 e = Return (ps, \<lambda>j. e (j + 40))
        \<and> (\<forall>p\<in>set ps. In p (Rect 0 0 200 80))
        \<and> (\<forall>img. addDistortion Set_RGBA img 200 80 e
              = Return (Set_all Set_RGBA Black img ps, \<lambda>j. e (j + 40)))
        \<and> (\<forall>img. rect img = Rect 0 0 200 80 \<longrightarrow>
              (\<forall>p\<in>set ps. pix (Set_all Set_RGBA Black img ps) p = Black))"
    by (intro exI [of _ "concat pss"]) simp
qed

theorem noise_strokes_inside_canvas_witness:
  "lineFits 0 0 5 2
   \<and> andThen (drawLine Set_log [] 0 0 5 2 Black) (\<lambda>ps. Return (list_all (inBox 0 0 5 2) ps)) = Return True
   \<and> andThen (addDistortion Set_log [] 200 80 (\<lambda>i. if i = 2 then 1 else 0)) (\<lambda>(ps, e'). Return ps)
     = Return [(0, 0), (1, 0), (0, 0), (0, 0), (0, 0), (0, 0), (0, 0), (0, 0), (0, 0), (0, 0), (0, 0)]
   \<and> In (1, 0) (Rect 0 0 200 80)"
proof -
  let ?e = "\<lambda>i::nat. if i = 2 then 1 else (0::nat)"
  have f: "lineFits 0 0 5 2" by (simp add: lineFits_def inInt64_def)
  have v: "andThen (addDistortion Set_log [] 200 80 ?e) (\<lambda>(ps, e'). Return ps)
     = Return [(0, 0), (1, 0), (0, 0), (0, 0), (0, 0), (0, 0), (0, 0), (0, 0), (0, 0), (0, 0), (0, 0)]"
    by code_simp
  note t = noise_strokes_inside_canvas [of 0 0 5 2 Black ?e]
  from t f obtain qs where "drawLine Set_log [] 0 0 5 2 Black = Return qs"
    "\<forall>p\<in>set qs. inBox 0 0 5 2 p" by blast
  then have l: "andThen (drawLine Set_log [] 0 0 5 2 Black) (\<lambda>ps. Return (list_all (inBox 0 0 5 2) ps))
      = Return True"
    by (simp add: list_all_iff)
  from t obtain ps where p: "addDistortion Set_log [] 200 80 ?e = Return (ps, \<lambda>j. ?e (j + 40))"
    and q: "\<forall>p\<in>set ps. In p (Rect 0 0 200 80)"
    by blast
  from v p have "(1, 0) \<in> set ps" by simp
  with q have "In (1, 0) (Rect 0 0 200 80)" by blast
  with f l v show ?thesis by (intro conjI)
qed

text \<open>
  From \<open>(0, 0)\<close> to \<open>(2 ^ 62 + 1, 1)\<close>: twice the error term \<open>2 ^ 62\<close> wraps around to
  \<open>- 2 ^ 63\<close>, so the first pass steps along \<open>y\<close> only, and the third call of \<open>Set\<close> is
  at \<open>(1, 2)\<close>, above the bounding box of the endpoints.
\<close>

theorem drawLine_leaves_box:
  "inInt64 (2 ^ 62 + 1)
   \<and> drawLine_upto 3 Set_log [] 0 0 (2 ^ 62 + 1) 1 Black = [(0, 0), (0, 1), (1, 2)]
   \<and> \<not> inBox 0 0 (2 ^ 62 + 1) 1 (1, 2)
   \<and> andThen (drawLine Set_log [] 0 0 (2 ^ 62 + 1) 1 Black)
         (\<lambda>ps. Return (list_all (inBox 0 0 (2 ^ 62 + 1) 1) ps)) \<noteq> Return True"
proof -
  have i: "inInt64 (2 ^ 62 + 1)" by (simp add: inInt64_def)
  have u: "drawLine_upto 3 Set_log [] 0 0 (2 ^ 62 + 1) 1 Black = [(0, 0), (0, 1), (1, 2)]"
    by (simp add: drawLine_upto_def drawLine_init_def abs_int_def int64_def Let_def
        eval_nat_numeral drawLine_next_def Set_log_def)
  have b: "\<not> inBox 0 0 (2 ^ 62 + 1) 1 (1, 2)" by (simp add: inBox_def)
  have n: "andThen (drawLine Set_log [] 0 0 (2 ^ 62 + 1) 1 Black)
         (\<lambda>ps. Return (list_all (inBox 0 0 (2 ^ 62 + 1) 1) ps)) \<noteq> Return True"
  proof (cases "drawLine Set_log [] 0 0 (2 ^ 62 + 1) 1 Black")
    case (Return ps)
    from drawLine_upto_prefix [OF Return, of 3] u obtain qs where "ps = [(0, 0), (0, 1), (1, 2)] @ qs"
      by auto
    then have "(1, 2) \<in> set ps" by simp
    with b have "\<not> list_all (inBox 0 0 (2 ^ 62 + 1) 1) ps" by (auto simp: list_all_iff)
    with Return show ?thesis by simp
  next
    case (Panics x)
    then show ?thesis by simp
  next
    case Diverges
    then show ?thesis by simp
  qed
  from i u b n show ?thesis by (intro conjI)
qed

section \<open>Properties of generateImage\<close>

lemma rect_background: "rect background = Rect 0 0 200 80"
  by (simp add: background_def draw_Draw_Src_def NewRGBA_def)


lemma rect_textLayer: "rect (textLayer f text) = Rect 0 0 200 80"
  by (simp add: textLayer_def DrawString_def rect_background)


lemma generateImage_stages:
  "generateImage ttf text e =
     (case ttf of
        Inl err \<Rightarrow> Panics (FontError err)
      | Inr ttfFont \<Rightarrow>
          (case opentype_NewFace ttfFont \<lparr>Size = 32, DPI = 72, Hinting = HintingFull\<rparr> of
             Inl err \<Rightarrow> Panics (FontError err)
           | Inr f \<Rightarrow> addDistortion Set_RGBA (textLayer f text) 200 80 e))"
  by (simp add: generateImage_def Let_def textLayer_def textDot_def background_def NewRGBA_def
      split: sum.splits)

lemma generateImage_noise:
  assumes "opentype_NewFace ttfFont \<lparr>Size = 32, DPI = 72, Hinting = HintingFull\<rparr> = Inr f"
  shows "\<exists>ps. addDistortion Set_log [] 200 80 e = Return (ps, \<lambda>j. e (j + 40))
      \<and> generateImage (Inr ttfFont) tx e
          = Return (Set_all Set_RGBA Black (textLayer f tx) ps, \<lambda>j. e (j + 40))
      \<and> (\<forall>p\<in>set ps. In p (Rect 0 0 200 80))"
proof -
  have w: "(0::int) < 200" "(200::int) \<le> 2 ^ 61" and h: "(0::int) < 80" "(80::int) \<le> 2 ^ 61"
    by simp_all
  from addDistortion_points [OF w h, where setf = Set_RGBA and e = e] obtain pss where
    a: "\<And>l. addDistortion Set_log l 200 80 e = Return (l @ concat pss, \<lambda>j. e (j + 40))"
    and b: "\<And>img. addDistortion Set_RGBA img 200 80 e
            = Return (Set_all Set_RGBA Black img (concat pss), \<lambda>j. e (j + 40))"
    and c: "\<forall>p\<in>set (concat pss). In p (Rect 0 0 200 80)"
    by blast
  from a [of "[]"] b [of "textLayer f tx"] c assms show ?thesis
    by (intro exI [of _ "concat pss"]) (simp add: generateImage_stages)
qed







lemma stroke_nth:
  assumes "length ds = 40" "k < 10"
  shows "stroke w h (\<lambda>j. ds ! j) k
    = ((int (ds ! (4 * k)) mod w, int (ds ! (4 * k + 1)) mod h),
       (int (ds ! (4 * k + 2)) mod w, int (ds ! (4 * k + 3)) mod h))"
  by (simp add: stroke_def)



lemma sampleFont_face:
  "opentype_NewFace sampleFont \<lparr>Size = 32, DPI = 72, Hinting = HintingFull\<rparr> = Inr sampleFace"
  by (simp add: sampleFont_def)

lemma Set_all_same_points:
  assumes "set ps = set qs"
  shows "Set_all Set_RGBA c img ps = Set_all Set_RGBA c img qs"
proof (rule rgbaImage.equality)
  show "rect (Set_all Set_RGBA c img ps) = rect (Set_all Set_RGBA c img qs)"
    by (simp add: rect_Set_all)
  show "pix (Set_all Set_RGBA c img ps) = pix (Set_all Set_RGBA c img qs)"
    using assms by (simp add: fun_eq_iff pix_Set_all)
  show "rgbaImage.more (Set_all Set_RGBA c img ps) = rgbaImage.more (Set_all Set_RGBA c img qs)"
    by simp
qed

lemma handleIndex_returns: "\<exists>r. snd (handleIndex st tok now e) = Return r"
proof -
  from generateEquation_cases [of e] obtain a b op e' where
    "generateEquation e = Return ((Sprintf_equation a op b, calculateAnswer a b op), e')" by blast
  then show ?thesis by (simp add: handleIndex_def)
qed

lemma handleCaptchaNew_returns: "\<exists>r. snd (handleCaptchaNew st tok now e) = Return r"
proof -
  from generateEquation_cases [of e] obtain a b op e' where
    "generateEquation e = Return ((Sprintf_equation a op b, calculateAnswer a b op), e')" by blast
  then show ?thesis by (simp add: handleCaptchaNew_def)
qed

lemma validate_returns: "\<exists>r. snd (serve st (PostValidate tok ans)) = Return r"
  by (simp add: case_prod_unfold)




text \<open>
  C6, as the code has it. When the font loads, two renderings of the same text return
  images with the same rectangle; each shows black on the pixels of its own noise strokes
  and the text layer, which depends on the text only, everywhere else; so the two images
  agree on every pixel that no stroke of either covers. The strokes come from the draws of
  the randomness source, and two renderings whose strokes cover the same pixels are the
  same image.
\<close>

theorem render_text_fixed_noise_drawn:
  assumes "opentype_NewFace ttfFont \<lparr>Size = 32, DPI = 72, Hinting = HintingFull\<rparr> = Inr f"
  shows "\<exists>ps1 ps2 img1 img2.
      addDistortion Set_log [] 200 80 e1 = Return (ps1, \<lambda>j. e1 (j + 40))
    \<and> addDistortion Set_log [] 200 80 e2 = Return (ps2, \<lambda>j. e2 (j + 40))
    \<and> generateImage (Inr ttfFont) tx e1 = Return (img1, \<lambda>j. e1 (j + 40))
    \<and> generateImage (Inr ttfFont) tx e2 = Return (img2, \<lambda>j. e2 (j + 40))
    \<and> rect img1 = rect img2
    \<and> (\<forall>p. pix img1 p = (if p \<in> set ps1 then Black else pix (textLayer f tx) p))
    \<and> (\<forall>p. pix img2 p = (if p \<in> set ps2 then Black else pix (textLayer f tx) p))
    \<and> (\<forall>p. p \<notin> set ps1 \<and> p \<notin> set ps2 \<longrightarrow> pix img1 p = pix img2 p)
    \<and> (set ps1 = set ps2 \<longrightarrow> img1 = img2)"
proof -
  from generateImage_noise [OF assms, of e1 tx] obtain ps1 where
    a1: "addDistortion Set_log [] 200 80 e1 = Return (ps1, \<lambda>j. e1 (j + 40))"
    and g1: "generateImage (Inr ttfFont) tx e1
          = Return (Set_all Set_RGBA Black (textLayer f tx) ps1, \<lambda>j. e1 (j + 40))"
    and c1: "\<forall>p\<in>set ps1. In p (Rect 0 0 200 80)" by blast
  from generateImage_noise [OF assms, of e2 tx] obtain ps2 where
    a2: "addDistortion Set_log [] 200 80 e2 = Return (ps2, \<lambda>j. e2 (j + 40))"
    and g2: "generateImage (Inr ttfFont) tx e2
          = Return (Set_all Set_RGBA Black (textLayer f tx) ps2, \<lambda>j. e2 (j + 40))"
    and c2: "\<forall>p\<in>set ps2. In p (Rect 0 0 200 80)" by blast
  let ?img1 = "Set_all Set_RGBA Black (textLayer f tx) ps1"
  let ?img2 = "Set_all Set_RGBA Black (textLayer f tx) ps2"
  have r: "rect ?img1 = rect ?img2" by (simp add: rect_Set_all)
  have p1: "\<forall>p. pix ?img1 p = (if p \<in> set ps1 then Black else pix (textLayer f tx) p)"
    using c1 by (auto simp: pix_Set_all rect_textLayer)
  have p2: "\<forall>p. pix ?img2 p = (if p \<in> set ps2 then Black else pix (textLayer f tx) p)"
    using c2 by (auto simp: pix_Set_all rect_textLayer)
  have o: "\<forall>p. p \<notin> set ps1 \<and> p \<notin> set ps2 \<longrightarrow> pix ?img1 p = pix ?img2 p"
    using p1 p2 by simp
  have s: "set ps1 = set ps2 \<longrightarrow> ?img1 = ?img2"
    using Set_all_same_points by blast
  from a1 a2 g1 g2 r p1 p2 o s show ?thesis by blast
qed

theorem render_text_fixed_noise_drawn_witness:
  "\<exists>img1 img2.
      generateImage (Inr sampleFont) ''3 + 4 = ?'' (\<lambda>i. 0) = Return (img1, \<lambda>j. 0)
    \<and> generateImage (Inr sampleFont) ''3 + 4 = ?'' (\<lambda>i. 1) = Return (img2, \<lambda>j. 1)
    \<and> rect img1 = rect img2
    \<and> pix img1 (5, 5) = pix img2 (5, 5)
    \<and> pix img1 (0, 0) = Black"
proof -
  have v1: "andThen (addDistortion Set_log [] 200 80 (\<lambda>i. 0)) (\<lambda>(ps, e'). Return ps)
     = Return [(0, 0), (0, 0), (0, 0), (0, 0), (0, 0), (0, 0), (0, 0), (0, 0), (0, 0), (0, 0)]"
    by code_simp
  have v2: "andThen (addDistortion Set_log [] 200 80 (\<lambda>i. 1)) (\<lambda>(ps, e'). Return ps)
     = Return [(1, 1), (1, 1), (1, 1), (1, 1), (1, 1), (1, 1), (1, 1), (1, 1), (1, 1), (1, 1)]"
    by code_simp
  from render_text_fixed_noise_drawn [OF sampleFont_face, of "\<lambda>i. 0" "\<lambda>i. 1" "''3 + 4 = ?''"]
  obtain ps1 ps2 img1 img2 where
    a1: "addDistortion Set_log [] 200 80 (\<lambda>i. 0) = Return (ps1, \<lambda>j. 0)"
    and a2: "addDistortion Set_log [] 200 80 (\<lambda>i. 1) = Return (ps2, \<lambda>j. 1)"
    and g1: "generateImage (Inr sampleFont) ''3 + 4 = ?'' (\<lambda>i. 0) = Return (img1, \<lambda>j. 0)"
    and g2: "generateImage (Inr sampleFont) ''3 + 4 = ?'' (\<lambda>i. 1) = Return (img2, \<lambda>j. 1)"
    and r: "rect img1 = rect img2"
    and p1: "\<forall>p. pix img1 p = (if p \<in> set ps1 then Black else pix (textLayer sampleFace ''3 + 4 = ?'') p)"
    and o: "\<forall>p. p \<notin> set ps1 \<and> p \<notin> set ps2 \<longrightarrow> pix img1 p = pix img2 p"
    by blast
  from v1 a1 have s1: "set ps1 = {(0, 0)}" by simp
  from v2 a2 have s2: "set ps2 = {(1, 1)}" by simp
  from o s1 s2 have "pix img1 (5, 5) = pix img2 (5, 5)" by simp
  moreover from p1 s1 have "pix img1 (0, 0) = Black" by simp
  ultimately show ?thesis using g1 g2 r by blast
qed

text \<open>
  Two renderings of one text with different draws (the first stroke runs from
  \<open>(1, 0)\<close> to \<open>(0, 0)\<close> in one and from \<open>(0, 0)\<close> to \<open>(1, 0)\<close> in the other) that
  return the same image: renderings of the same text can be byte-identical.
\<close>

theorem distinct_noise_same_image:
  "andThen (addDistortion Set_log [] 200 80 (\<lambda>i. if i = 0 then 1 else 0)) (\<lambda>(ps, e'). Return ps)
     = Return [(1, 0), (0, 0), (0, 0), (0, 0), (0, 0), (0, 0), (0, 0), (0, 0), (0, 0), (0, 0), (0, 0)]
   \<and> andThen (addDistortion Set_log [] 200 80 (\<lambda>i. if i = 2 then 1 else 0)) (\<lambda>(ps, e'). Return ps)
     = Return [(0, 0), (1, 0), (0, 0), (0, 0), (0, 0), (0, 0), (0, 0), (0, 0), (0, 0), (0, 0), (0, 0)]
   \<and> generateImage (Inr sampleFont) ''3 + 4 = ?'' (\<lambda>i. if i = 0 then 1 else 0)
     = generateImage (Inr sampleFont) ''3 + 4 = ?'' (\<lambda>i. if i = 2 then 1 else 0)"
proof -
  let ?e1 = "\<lambda>i::nat. if i = 0 then 1 else (0::nat)"
  let ?e2 = "\<lambda>i::nat. if i = 2 then 1 else (0::nat)"
  have v1: "andThen (addDistortion Set_log [] 200 80 ?e1) (\<lambda>(ps, e'). Return ps)
     = Return [(1, 0), (0, 0), (0, 0), (0, 0), (0, 0), (0, 0), (0, 0), (0, 0), (0, 0), (0, 0), (0, 0)]"
    by code_simp
  have v2: "andThen (addDistortion Set_log [] 200 80 ?e2) (\<lambda>(ps, e'). Return ps)
     = Return [(0, 0), (1, 0), (0, 0), (0, 0), (0, 0), (0, 0), (0, 0), (0, 0), (0, 0), (0, 0), (0, 0)]"
    by code_simp
  from generateImage_noise [OF sampleFont_face, of ?e1 "''3 + 4 = ?''"] obtain ps1 where
    a1: "addDistortion Set_log [] 200 80 ?e1 = Return (ps1, \<lambda>j. ?e1 (j + 40))"
    and g1: "generateImage (Inr sampleFont) ''3 + 4 = ?'' ?e1
        = Return (Set_all Set_RGBA Black (textLayer sampleFace ''3 + 4 = ?'') ps1, \<lambda>j. ?e1 (j + 40))"
    by blast
  from generateImage_noise [OF sampleFont_face, of ?e2 "''3 + 4 = ?''"] obtain ps2 where
    a2: "addDistortion Set_log [] 200 80 ?e2 = Return (ps2, \<lambda>j. ?e2 (j + 40))"
    and g2: "generateImage (Inr sampleFont) ''3 + 4 = ?'' ?e2
        = Return (Set_all Set_RGBA Black (textLayer sampleFace ''3 + 4 = ?'') ps2, \<lambda>j. ?e2 (j + 40))"
    by blast
  from v1 a1 have s1: "set ps1 = {(0, 0), (1, 0)}" by auto
  from v2 a2 have s2: "set ps2 = {(0, 0), (1, 0)}" by auto
  have "Set_all Set_RGBA Black (textLayer sampleFace ''3 + 4 = ?'') ps1
      = Set_all Set_RGBA Black (textLayer sampleFace ''3 + 4 = ?'') ps2"
    by (rule Set_all_same_points) (simp add: s1 s2)
  moreover have "(\<lambda>j. ?e1 (j + 40)) = (\<lambda>j. ?e2 (j + 40))" by (rule ext) simp
  ultimately have "generateImage (Inr sampleFont) ''3 + 4 = ?'' ?e1
      = generateImage (Inr sampleFont) ''3 + 4 = ?'' ?e2"
    unfolding g1 g2 by simp
  with v1 v2 show ?thesis by (intro conjI)
qed

text \<open>
  C5, as the code has it. \<open>generateImage\<close> parses the font and makes the face in every
  call: when either fails, that call panics, and so does the image request that made it;
  when both succeed the call returns an image. The other requests (the two that create a
  challenge, the validation, and an image request for an unknown identifier) return
  without a panic, and none of them loads the font.
\<close>

theorem font_loaded_in_each_render:
  "generateImage (Inl err) tx e = Panics (FontError err)
   \<and> (opentype_NewFace ttfFont \<lparr>Size = 32, DPI = 72, Hinting = HintingFull\<rparr> = Inl err \<longrightarrow>
        generateImage (Inr ttfFont) tx e = Panics (FontError err))
   \<and> (opentype_NewFace ttfFont \<lparr>Size = 32, DPI = 72, Hinting = HintingFull\<rparr> = Inr f \<longrightarrow>
        (\<exists>img. generateImage (Inr ttfFont) tx e = Return (img, \<lambda>j. e (j + 40))))
   \<and> (peek st tok = Some entry \<longrightarrow>
        handleCaptchaImage st tok (Inl err) e = (st, Panics (FontError err)))
   \<and> (peek st tok = None \<longrightarrow>
        handleCaptchaImage st tok ttf e = (st, Return (AbortWithStatus 404)))
   \<and> (\<exists>r. snd (handleIndex st tok now e) = Return r)
   \<and> (\<exists>r. snd (handleCaptchaNew st tok now e) = Return r)
   \<and> (\<exists>r. snd (serve st (PostValidate tok ans)) = Return r)"
proof -
  have "\<exists>img. generateImage (Inr ttfFont) tx e = Return (img, \<lambda>j. e (j + 40))"
    if "opentype_NewFace ttfFont \<lparr>Size = 32, DPI = 72, Hinting = HintingFull\<rparr> = Inr f"
    using generateImage_noise [OF that, of e tx] by blast
  then show ?thesis
    using handleIndex_returns [of st tok now e] handleCaptchaNew_returns [of st tok now e]
      validate_returns [of st tok ans]
    by (simp add: generateImage_stages handleCaptchaImage_def)
qed

theorem font_loaded_in_each_render_witness:
  "peek [''t'' \<mapsto> \<lparr>equation = ''3 + 4 = ?'', answer = 7, created = 0\<rparr>] ''t''
     = Some \<lparr>equation = ''3 + 4 = ?'', answer = 7, created = 0\<rparr>
   \<and> handleCaptchaImage [''t'' \<mapsto> \<lparr>equation = ''3 + 4 = ?'', answer = 7, created = 0\<rparr>] ''t''
        (Inl ''bad font'') (\<lambda>i. 0)
     = ([''t'' \<mapsto> \<lparr>equation = ''3 + 4 = ?'', answer = 7, created = 0\<rparr>], Panics (FontError ''bad font''))
   \<and> (\<exists>img. generateImage (Inr sampleFont) ''3 + 4 = ?'' (\<lambda>i. 0) = Return (img, \<lambda>j. 0))"
proof -
  have p: "peek [''t'' \<mapsto> \<lparr>equation = ''3 + 4 = ?'', answer = 7, created = 0\<rparr>] ''t''
     = Some \<lparr>equation = ''3 + 4 = ?'', answer = 7, created = 0\<rparr>"
    by (simp add: peek_def)
  from p sampleFont_face
    font_loaded_in_each_render [where st = "[''t'' \<mapsto> \<lparr>equation = ''3 + 4 = ?'', answer = 7, created = 0\<rparr>]"
      and tok = "''t''" and entry = "\<lparr>equation = ''3 + 4 = ?'', answer = 7, created = 0\<rparr>"
      and err = "''bad font''" and e = "\<lambda>i. 0" and ttfFont = sampleFont and f = sampleFace
      and tx = "''3 + 4 = ?''" and ttf = "Inl ''bad font''" and now = 0 and ans = "''7''"]
  show ?thesis by blast
qed

text \<open>
  With a font that does not parse, the page \<open>GET /\<close> is served and stores a challenge,
  and the request for its image panics: the failure to load the font shows in a request,
  not at startup.
\<close>

theorem font_failure_in_request:
  "snd (handleIndex Map.empty ''t'' 0 (\<lambda>i. 0))
     = Return (HTML 200 ''index.html'' [(''captchaID'', ''t'')])
   \<and> snd (handleCaptchaImage (fst (handleIndex Map.empty ''t'' 0 (\<lambda>i. 0))) ''t''
            (Inl ''bad font'') (\<lambda>i. 0))
     = Panics (FontError ''bad font'')"
proof -
  have g: "generateEquation (\<lambda>i. 0) = Return ((''1 + 1 = ?'', 2), \<lambda>i. 0)"
    by (simp add: generateEquation_def rand_Int_def getRandomNumber_def ops_def
        Sprintf_equation_def fmt_d_def digits.simps calculateAnswer_def)
  show ?thesis
    by (simp add: handleIndex_def g handleCaptchaImage_def peek_def generateImage_def)
qed

end
